theory Spec2Isabelle
  imports Complex_Main "HOL-Library.Word"
begin

section \<open>Numeric conventions\<close>

text \<open>
  \<^verbatim>\<open>View.hpp\<close> declares \<^verbatim>\<open>typedef double Real\<close>, replaceable by the arbitrary
  precision wrapper, and \<^verbatim>\<open>typedef sf::Vector2<Real> Complex\<close>,
  \<^verbatim>\<open>typedef sf::Vector2<int> Pixel\<close>. The numeric type \<^verbatim>\<open>Real\<close> is embedded as the
  mathematical reals (no rounding, no NaN, no infinities), \<^verbatim>\<open>float\<close> likewise, and
  \<^verbatim>\<open>int\<close> as the mathematical integers (no overflow). Two-component vectors are
  pairs: \<open>fst\<close> is the member \<^verbatim>\<open>x\<close>, \<open>snd\<close> is the member \<^verbatim>\<open>y\<close>.
  Where a property depends on the rounding of \<^verbatim>\<open>double\<close>, the operations are embedded
  a second time with every result rounded (the functions named \<open>_double\<close>), and where
  it depends on a result leaving the range of \<^verbatim>\<open>double\<close>, the statement is restricted
  to arguments that keep every result inside it.
\<close>

type_synonym Real = real
type_synonym Complex = "real \<times> real"
type_synonym Pixel = "int \<times> int"

text \<open>\<^verbatim>\<open>static_cast<int>(r)\<close> and \<^verbatim>\<open>static_cast<long>(r)\<close>: the fractional part is
  discarded (truncation towards zero).\<close>

definition static_cast_int :: "real \<Rightarrow> int" where
  "static_cast_int r = (if 0 \<le> r then \<lfloor>r\<rfloor> else \<lceil>r\<rceil>)"

text \<open>Integer division of C++ truncates towards zero; \<open>div\<close> of HOL rounds down.\<close>

definition int_div :: "int \<Rightarrow> int \<Rightarrow> int" where
  "int_div a b = sgn a * sgn b * (\<bar>a\<bar> div \<bar>b\<bar>)"

text \<open>\<^verbatim>\<open>signbit(w) ? -1 : 1\<close> on a value that is never a negative zero.\<close>

definition signbit_factor :: "real \<Rightarrow> real" where
  "signbit_factor w = (if w < 0 then - 1 else 1)"

section \<open>The View class\<close>

text \<open>\<^verbatim>\<open>sf::Rect<Real>\<close> with its members \<^verbatim>\<open>left, top, width, height\<close>.\<close>

record ComplexRect =
  rect_left :: real
  rect_top :: real
  rect_width :: real
  rect_height :: real

text \<open>The constructor \<^verbatim>\<open>sf::Rect(position, size)\<close>.\<close>

definition ComplexRect_of :: "Complex \<Rightarrow> Complex \<Rightarrow> ComplexRect" where
  "ComplexRect_of position sz =
     \<lparr>rect_left = fst position, rect_top = snd position,
      rect_width = fst sz, rect_height = snd sz\<rparr>"

text \<open>The part of \<^verbatim>\<open>sf::RectangleShape\<close> that the class writes: position and size.\<close>

record RectangleShape =
  shape_position :: "real \<times> real"
  shape_size :: "real \<times> real"

record View =
  m_dirty :: bool
  m_scale :: real
  m_zoom :: real
  m_centre :: Complex
  m_rect :: ComplexRect
  m_screenSize :: Pixel
  m_aspectRatio :: real
  m_zoomBoxIsShown :: bool
  m_zoomBoxStartCorner :: Pixel
  m_zoomBoxEndCorner :: Pixel
  m_zoomBoxShape :: RectangleShape

subsection \<open>Dirty flag and viewport\<close>


definition setDirty :: "View \<Rightarrow> bool \<Rightarrow> View" where
  "setDirty v d = v\<lparr>m_dirty := d\<rparr>"

definition updateViewport :: "View \<Rightarrow> View" where
  "updateViewport v =
     (let scaleVector = (m_scale v * m_aspectRatio v, m_scale v)
      in v\<lparr>m_rect := ComplexRect_of
            (fst (m_centre v) - fst scaleVector, snd (m_centre v) - snd scaleVector)
            scaleVector\<rparr>)"


definition getViewportPosition :: "View \<Rightarrow> Complex" where
  "getViewportPosition v = (rect_left (m_rect v), rect_top (m_rect v))"

definition getViewportSize :: "View \<Rightarrow> Complex" where
  "getViewportSize v = (rect_width (m_rect v), rect_height (m_rect v))"

definition setViewport :: "View \<Rightarrow> ComplexRect \<Rightarrow> View" where
  "setViewport v r =
     (let v1 = v\<lparr>m_rect := r\<rparr>;
          v2 = v1\<lparr>m_scale := (1 / 2) * rect_height r\<rparr>;
          v3 = v2\<lparr>m_zoom := log 2 (m_scale v2)\<rparr>;
          v4 = v3\<lparr>m_centre := (rect_left r + (1 / 2) * rect_width r,
                               rect_top r + (1 / 2) * rect_height r)\<rparr>
      in setDirty v4 True)"

subsection \<open>Scale and zoom\<close>


definition setScale :: "View \<Rightarrow> real \<Rightarrow> View" where
  "setScale v s = updateViewport (setDirty (v\<lparr>m_scale := s, m_zoom := log 2 s\<rparr>) True)"

definition getZoom :: "View \<Rightarrow> real" where
  "getZoom v = m_zoom v"

definition zoomTo :: "View \<Rightarrow> real \<Rightarrow> View" where
  "zoomTo v z = updateViewport (setDirty (v\<lparr>m_zoom := z, m_scale := 2 powr z\<rparr>) True)"

text \<open>\<^verbatim>\<open>m_zoom += dz; m_scale = 1 / pow(TWO, static_cast<long>(-m_zoom));\<close>
  In \<open>zoomTo\<close> and \<open>zoomBy\<close> the power is the exact one, \<open>2 powr z\<close>. The \<^verbatim>\<open>pow\<close> of
  the machine agrees with it up to rounding while the exponent stays between \<open>-1022\<close> and
  \<open>1023\<close>; below \<open>-1074\<close> it returns \<open>0.0\<close> and from \<open>1024\<close> on infinity, which the
  reals do not have.\<close>

definition zoomBy :: "View \<Rightarrow> real \<Rightarrow> View" where
  "zoomBy v dz =
     (let v1 = v\<lparr>m_zoom := m_zoom v + dz\<rparr>;
          v2 = v1\<lparr>m_scale := 1 / (2 powr real_of_int (static_cast_int (- m_zoom v1)))\<rparr>
      in updateViewport (setDirty v2 True))"

definition resizeScreen :: "View \<Rightarrow> int \<Rightarrow> int \<Rightarrow> View" where
  "resizeScreen v screenWidth screenHeight =
     (let v1 = v\<lparr>m_scale := m_scale v *
                   (real_of_int screenHeight / real_of_int (snd (m_screenSize v)))\<rparr>;
          v2 = v1\<lparr>m_screenSize := (screenWidth, screenHeight)\<rparr>;
          v3 = v2\<lparr>m_aspectRatio := real_of_int screenWidth / real_of_int screenHeight\<rparr>
      in updateViewport (setDirty v3 True))"

subsection \<open>Centre\<close>


text \<open>\<^verbatim>\<open>moveBy(Complex displacement)\<close> and \<^verbatim>\<open>moveBy(Real dx, Real dy)\<close>.\<close>

definition moveBy_Complex :: "View \<Rightarrow> Complex \<Rightarrow> View" where
  "moveBy_Complex v displacement =
     updateViewport (setDirty
       (v\<lparr>m_centre := (fst (m_centre v) + fst displacement * m_scale v,
                        snd (m_centre v) + snd displacement * m_scale v)\<rparr>) True)"

definition moveBy :: "View \<Rightarrow> real \<Rightarrow> real \<Rightarrow> View" where
  "moveBy v dx dy =
     updateViewport (setDirty
       (v\<lparr>m_centre := (fst (m_centre v) + dx * m_scale v,
                        snd (m_centre v) + dy * m_scale v)\<rparr>) True)"

text \<open>\<^verbatim>\<open>moveTo(Complex position)\<close> and \<^verbatim>\<open>moveTo(Real x, Real y)\<close>.\<close>

definition moveTo_Complex :: "View \<Rightarrow> Complex \<Rightarrow> View" where
  "moveTo_Complex v position = updateViewport (setDirty (v\<lparr>m_centre := position\<rparr>) True)"

definition moveTo :: "View \<Rightarrow> real \<Rightarrow> real \<Rightarrow> View" where
  "moveTo v cx cy = updateViewport (setDirty (v\<lparr>m_centre := (cx, cy)\<rparr>) True)"

subsection \<open>Pixel and plane coordinates\<close>

text \<open>\<^verbatim>\<open>complexAtPixel(Pixel p)\<close>:
  \<^verbatim>\<open>m_centre + m_scale * Complex(2 * p - m_screenSize) / static_cast<Real>(m_screenSize.y)\<close>.\<close>

definition complexAtPixel_Pixel :: "View \<Rightarrow> Pixel \<Rightarrow> Complex" where
  "complexAtPixel_Pixel v p =
     (fst (m_centre v) +
        m_scale v * real_of_int (2 * fst p - fst (m_screenSize v)) /
          real_of_int (snd (m_screenSize v)),
      snd (m_centre v) +
        m_scale v * real_of_int (2 * snd p - snd (m_screenSize v)) /
          real_of_int (snd (m_screenSize v)))"

definition complexAtPixel :: "View \<Rightarrow> int \<Rightarrow> int \<Rightarrow> Complex" where
  "complexAtPixel v px py =
     (fst (m_centre v) +
        (m_scale v / real_of_int (snd (m_screenSize v))) *
          real_of_int (2 * px - fst (m_screenSize v)),
      snd (m_centre v) +
        (m_scale v / real_of_int (snd (m_screenSize v))) *
          real_of_int (2 * py - snd (m_screenSize v)))"

definition pixelAtComplex :: "View \<Rightarrow> real \<Rightarrow> real \<Rightarrow> Pixel" where
  "pixelAtComplex v zx zy =
     (static_cast_int ((1 / 2) *
        ((zx - fst (m_centre v)) * (real_of_int (snd (m_screenSize v)) / m_scale v) +
         real_of_int (fst (m_screenSize v)))),
      static_cast_int ((1 / 2) *
        ((zy - snd (m_centre v)) * (real_of_int (snd (m_screenSize v)) / m_scale v) +
         real_of_int (snd (m_screenSize v)))))"

definition pixelAtComplex_Complex :: "View \<Rightarrow> Complex \<Rightarrow> Pixel" where
  "pixelAtComplex_Complex v z = pixelAtComplex v (fst z) (snd z)"

subsection \<open>Zoom box\<close>

definition zoomBoxBegin :: "View \<Rightarrow> int \<Rightarrow> int \<Rightarrow> View" where
  "zoomBoxBegin v px py = v\<lparr>m_zoomBoxIsShown := True, m_zoomBoxStartCorner := (px, py)\<rparr>"

text \<open>The aspect correction of \<^verbatim>\<open>zoomBoxContinue\<close>: the \<^verbatim>\<open>if\<close>/\<^verbatim>\<open>else\<close> that
  rewrites one of the local floats \<^verbatim>\<open>w\<close>, \<^verbatim>\<open>h\<close>; the result is the pair of
  their final values.\<close>

definition zoomBoxFit :: "real \<Rightarrow> real \<Rightarrow> real \<Rightarrow> real \<times> real" where
  "zoomBoxFit aspectRatio w h =
     (if aspectRatio * \<bar>h\<bar> > \<bar>w\<bar>
      then (\<bar>h\<bar> * aspectRatio * signbit_factor w, h)
      else (w, \<bar>w\<bar> / aspectRatio * signbit_factor h))"

definition zoomBoxContinue :: "View \<Rightarrow> int \<Rightarrow> int \<Rightarrow> View" where
  "zoomBoxContinue v px py =
     (if m_zoomBoxIsShown v then
        (let w0 = real_of_int (px - fst (m_zoomBoxStartCorner v));
             h0 = real_of_int (py - snd (m_zoomBoxStartCorner v));
             wh = zoomBoxFit (m_aspectRatio v) w0 h0;
             v1 = v\<lparr>m_zoomBoxEndCorner :=
                      (fst (m_zoomBoxStartCorner v) + static_cast_int (fst wh),
                       snd (m_zoomBoxStartCorner v) + static_cast_int (snd wh))\<rparr>
         in v1\<lparr>m_zoomBoxShape :=
                 \<lparr>shape_position =
                    (real_of_int (min (fst (m_zoomBoxStartCorner v1)) (fst (m_zoomBoxEndCorner v1))),
                     real_of_int (min (snd (m_zoomBoxStartCorner v1)) (snd (m_zoomBoxEndCorner v1)))),
                  shape_size = (\<bar>fst wh\<bar>, \<bar>snd wh\<bar>)\<rparr>\<rparr>)
      else v)"

definition zoomBoxEnd :: "View \<Rightarrow> int \<Rightarrow> int \<Rightarrow> View" where
  "zoomBoxEnd v px py =
     (let v1 = zoomBoxContinue v px py;
          h = real_of_int \<bar>snd (m_zoomBoxEndCorner v1) - snd (m_zoomBoxStartCorner v1)\<bar>;
          v2 = (if h > 0 then
                  (let mid = (int_div (fst (m_zoomBoxStartCorner v1) + fst (m_zoomBoxEndCorner v1)) 2,
                              int_div (snd (m_zoomBoxStartCorner v1) + snd (m_zoomBoxEndCorner v1)) 2);
                       v3 = moveTo_Complex v1 (complexAtPixel_Pixel v1 mid)
                   in setScale v3 (m_scale v3 * h / real_of_int (snd (m_screenSize v3))))
                else v1)
      in v2\<lparr>m_zoomBoxIsShown := False,
            m_zoomBoxShape := (m_zoomBoxShape v2)\<lparr>shape_size := (0, 0)\<rparr>\<rparr>)"

definition zoomBoxCancel :: "View \<Rightarrow> View" where
  "zoomBoxCancel v = v\<lparr>m_zoomBoxIsShown := False\<rparr>"

definition getZoomBoxIsShown :: "View \<Rightarrow> bool" where
  "getZoomBoxIsShown v = m_zoomBoxIsShown v"

definition getZoomBoxShape :: "View \<Rightarrow> RectangleShape" where
  "getZoomBoxShape v = m_zoomBoxShape v"

subsection \<open>Constructor\<close>

text \<open>The members carry their default initialisers from \<^verbatim>\<open>View.hpp\<close>; vectors,
  the rectangle and the shape start zeroed. The constructor sets the screen size and
  the aspect ratio, then calls \<^verbatim>\<open>moveTo(x, y)\<close> and \<^verbatim>\<open>zoomTo(zoom)\<close>.\<close>

definition View_init :: "real \<Rightarrow> real \<Rightarrow> real \<Rightarrow> int \<Rightarrow> int \<Rightarrow> View" where
  "View_init cx cy zoom screenWidth screenHeight =
     (let v0 = \<lparr>m_dirty = True, m_scale = 2, m_zoom = 1, m_centre = (0, 0),
                 m_rect = \<lparr>rect_left = 0, rect_top = 0, rect_width = 0, rect_height = 0\<rparr>,
                 m_screenSize = (screenWidth, screenHeight),
                 m_aspectRatio = real_of_int screenWidth / real_of_int screenHeight,
                 m_zoomBoxIsShown = False,
                 m_zoomBoxStartCorner = (0, 0), m_zoomBoxEndCorner = (0, 0),
                 m_zoomBoxShape = \<lparr>shape_position = (0, 0), shape_size = (0, 0)\<rparr>\<rparr>
      in zoomTo (moveTo v0 cx cy) zoom)"

text \<open>The view that \<^verbatim>\<open>MandelbrotRenderer\<close> constructs in \<^verbatim>\<open>Main.cpp\<close>:
  centre \<open>(-0.5, 0)\<close>, zoom \<open>1\<close>, a screen of 1200 by 900 pixels.\<close>

definition main_view :: View where
  "main_view = View_init (- (1 / 2)) 0 1 1200 900"

subsection \<open>The coordinate transform in double arithmetic\<close>

text \<open>
  With \<^verbatim>\<open>typedef double Real\<close> every arithmetic operation of \<^verbatim>\<open>complexAtPixel\<close> and
  \<^verbatim>\<open>pixelAtComplex\<close> rounds its exact result to the nearest double, ties to the even
  significand. \<open>to_double\<close> is that rounding: \<open>e\<close> is the binary exponent of \<open>x\<close>, \<open>q\<close> the
  spacing of the doubles with that exponent (53 significant bits). The exponent has no
  bounds here, so \<open>to_double\<close> is the rounding of the machine for results of magnitude
  between \<open>2^-1022\<close> and \<open>2^1024\<close>, and for zero.
\<close>

definition round_to_even :: "real \<Rightarrow> int" where
  "round_to_even x =
     (let f = \<lfloor>x\<rfloor>; r = x - real_of_int f
      in if r < 1 / 2 then f
         else if 1 / 2 < r then f + 1
         else if even f then f else f + 1)"

definition to_double :: "real \<Rightarrow> real" where
  "to_double x =
     (if x = 0 then 0
      else (let e = \<lfloor>log 2 \<bar>x\<bar>\<rfloor>;
                q = 2 powr (real_of_int e - 52)
            in real_of_int (round_to_even (x / q)) * q))"

text \<open>\<^verbatim>\<open>complexAtPixel(int x, int y)\<close> and \<^verbatim>\<open>pixelAtComplex(Real x, Real y)\<close> with the
  result of each division, multiplication, addition and subtraction rounded. The
  conversions of the integers \<^verbatim>\<open>m_screenSize.x\<close>, \<^verbatim>\<open>m_screenSize.y\<close> and
  \<^verbatim>\<open>2 * x - m_screenSize.x\<close> to \<^verbatim>\<open>double\<close> are exact.\<close>

definition complexAtPixel_double :: "View \<Rightarrow> int \<Rightarrow> int \<Rightarrow> Complex" where
  "complexAtPixel_double v px py =
     (to_double (fst (m_centre v) +
        to_double (to_double (m_scale v / real_of_int (snd (m_screenSize v))) *
          real_of_int (2 * px - fst (m_screenSize v)))),
      to_double (snd (m_centre v) +
        to_double (to_double (m_scale v / real_of_int (snd (m_screenSize v))) *
          real_of_int (2 * py - snd (m_screenSize v)))))"

definition pixelAtComplex_double :: "View \<Rightarrow> real \<Rightarrow> real \<Rightarrow> Pixel" where
  "pixelAtComplex_double v zx zy =
     (static_cast_int (to_double ((1 / 2) *
        to_double (to_double (to_double (zx - fst (m_centre v)) *
            to_double (real_of_int (snd (m_screenSize v)) / m_scale v)) +
          real_of_int (fst (m_screenSize v))))),
      static_cast_int (to_double ((1 / 2) *
        to_double (to_double (to_double (zy - snd (m_centre v)) *
            to_double (real_of_int (snd (m_screenSize v)) / m_scale v)) +
          real_of_int (snd (m_screenSize v))))))"

text \<open>The round trip of the pixel \<open>(px, py)\<close> in double arithmetic.\<close>

definition round_trip_double :: "View \<Rightarrow> int \<Rightarrow> int \<Rightarrow> Pixel" where
  "round_trip_double v px py =
     pixelAtComplex_double v (fst (complexAtPixel_double v px py))
       (snd (complexAtPixel_double v px py))"

text \<open>The view of \<^verbatim>\<open>Main.cpp\<close> zoomed in to the zoom level \<open>-60\<close>: the scale is \<open>2^-60\<close>,
  a double.\<close>

definition deep_view :: View where
  "deep_view = zoomTo main_view (- 60)"

subsection \<open>Predicates of the specification\<close>

text \<open>The state invariant of the specification: the scale is positive.\<close>

definition scale_positive :: "View \<Rightarrow> bool" where
  "scale_positive v \<longleftrightarrow> 0 < m_scale v"




text \<open>The view after a zoom box is dragged on the first frame from the pixel \<open>(0, 0)\<close> to
  the pixel \<open>(400, 300)\<close> and the button is released there: the mouse handlers call
  \<^verbatim>\<open>zoomBoxBegin\<close>, \<^verbatim>\<open>zoomBoxContinue\<close> and \<^verbatim>\<open>zoomBoxEnd\<close>.\<close>

definition box_zoomed_view :: View where
  "box_zoomed_view = zoomBoxEnd (zoomBoxContinue (zoomBoxBegin main_view 0 0) 400 300) 400 300"

text \<open>The view after the left button is pressed at the pixel \<open>(100, 100)\<close>, the mouse is
  moved to \<open>(400, 300)\<close> and the right button is pressed: the handlers call
  \<^verbatim>\<open>zoomBoxBegin\<close>, \<^verbatim>\<open>zoomBoxContinue\<close> and \<^verbatim>\<open>zoomBoxCancel\<close>.\<close>

definition cancelled_box_view :: View where
  "cancelled_box_view =
     zoomBoxCancel (zoomBoxContinue (zoomBoxBegin main_view 100 100) 400 300)"

section \<open>The escape-time evaluator\<close>

text \<open>\<^verbatim>\<open>const int MAX_ITERATIONS = 120 - (10 * static_cast<int>(m_renderingView.getZoom()))\<close>,
  the first line of \<^verbatim>\<open>MandelbrotRenderer::mandelbrot\<close>; the view is a parameter.\<close>

definition MAX_ITERATIONS :: "View \<Rightarrow> int" where
  "MAX_ITERATIONS v = 120 - 10 * static_cast_int (getZoom v)"

definition THRESHOLD :: real where
  "THRESHOLD = 16"

text \<open>One pass of the loop body: \<^verbatim>\<open>z = Complex(z.x*z.x - z.y*z.y + z0.x, TWO*z.x*z.y + z0.y)\<close>,
  and its test \<^verbatim>\<open>z.x*z.x + z.y*z.y > THRESHOLD\<close>.\<close>

definition mandelbrot_step :: "Complex \<Rightarrow> Complex \<Rightarrow> Complex" where
  "mandelbrot_step z0 z =
     (fst z * fst z - snd z * snd z + fst z0, 2 * fst z * snd z + snd z0)"

definition unbounded :: "Complex \<Rightarrow> bool" where
  "unbounded z \<longleftrightarrow> fst z * fst z + snd z * snd z > THRESHOLD"

text \<open>The loop \<^verbatim>\<open>for (int n = 0; n < MAX_ITERATIONS; n++)\<close> from the counter \<open>n\<close> on,
  with the early \<^verbatim>\<open>return n / MAX_ITERATIONS\<close> and the final \<^verbatim>\<open>return 1.0\<close>.\<close>

function mandelbrot_loop :: "int \<Rightarrow> Complex \<Rightarrow> Complex \<Rightarrow> int \<Rightarrow> real" where
  "mandelbrot_loop maxIter z0 z n =
     (if n < maxIter then
        (let z' = mandelbrot_step z0 z
         in if unbounded z' then real_of_int n / real_of_int maxIter
            else mandelbrot_loop maxIter z0 z' (n + 1))
      else 1)"
  by pat_completeness auto
termination
  by (relation "measure (\<lambda>(maxIter, z0, z, n). nat (maxIter - n))") auto

declare mandelbrot_loop.simps [simp del]

definition mandelbrot :: "View \<Rightarrow> Complex \<Rightarrow> real" where
  "mandelbrot v z0 = mandelbrot_loop (MAX_ITERATIONS v) z0 z0 0"

text \<open>The same loop, counting how often its body runs instead of computing the ratio.\<close>

function loop_body_runs :: "int \<Rightarrow> Complex \<Rightarrow> Complex \<Rightarrow> int \<Rightarrow> nat" where
  "loop_body_runs maxIter z0 z n =
     (if n < maxIter then
        (let z' = mandelbrot_step z0 z
         in if unbounded z' then 1
            else 1 + loop_body_runs maxIter z0 z' (n + 1))
      else 0)"
  by pat_completeness auto
termination
  by (relation "measure (\<lambda>(maxIter, z0, z, n). nat (maxIter - n))") auto

declare loop_body_runs.simps [simp del]

text \<open>The orbit of \<open>z0\<close>: \<open>orbit z0 k\<close> is the value of \<^verbatim>\<open>z\<close> after \<open>k\<close> passes.\<close>

fun orbit :: "Complex \<Rightarrow> nat \<Rightarrow> Complex" where
  "orbit z0 0 = z0"
| "orbit z0 (Suc k) = mandelbrot_step z0 (orbit z0 k)"

section \<open>Colours and the render pass\<close>

text \<open>\<^verbatim>\<open>sf::Color\<close>: four bytes; the default constructor gives opaque black, and the
  constructor with three arguments gives alpha 255.\<close>

record Color =
  col_r :: "8 word"
  col_g :: "8 word"
  col_b :: "8 word"
  col_a :: "8 word"

definition Color_default :: Color where
  "Color_default = \<lparr>col_r = 0, col_g = 0, col_b = 0, col_a = 255\<rparr>"

definition Color_rgb :: "8 word \<Rightarrow> 8 word \<Rightarrow> 8 word \<Rightarrow> Color" where
  "Color_rgb red green blue = \<lparr>col_r = red, col_g = green, col_b = blue, col_a = 255\<rparr>"

text \<open>\<^verbatim>\<open>fmod(a, b)\<close>: the remainder with the sign of \<open>a\<close>; and the conversion of a
  real to \<^verbatim>\<open>sf::Uint8\<close>, which keeps the low eight bits of the truncated value.\<close>

definition fmod :: "real \<Rightarrow> real \<Rightarrow> real" where
  "fmod a b = a - b * real_of_int (static_cast_int (a / b))"

definition static_cast_Uint8 :: "real \<Rightarrow> 8 word" where
  "static_cast_Uint8 r = word_of_int (static_cast_int r)"

definition hueToRGB :: "real \<Rightarrow> Color" where
  "hueToRGB h =
     (let x = static_cast_Uint8 (255 * (1 - \<bar>fmod (h / 60) 2 - 1\<bar>));
          k = int_div (static_cast_int h) 60
      in if k = 0 then Color_rgb 255 x 0
         else if k = 1 then Color_rgb x 255 0
         else if k = 2 then Color_rgb 0 255 x
         else if k = 3 then Color_rgb 0 x 255
         else if k = 4 then Color_rgb x 0 255
         else if k = 5 then Color_rgb 255 0 x
         else Color_default)"

datatype RenderingState = Rendering | Completed | Displayed

text \<open>The members of \<^verbatim>\<open>MandelbrotRenderer\<close> that \<^verbatim>\<open>render\<close> reads or writes. A pixel
  buffer is the heap array behind its pointer, a map from the byte offset to the byte.\<close>

record MandelbrotRenderer =
  m_width :: int
  m_height :: int
  m_renderingPixels :: "int \<Rightarrow> 8 word"
  m_completedPixels :: "int \<Rightarrow> 8 word"
  m_renderingView :: View
  m_completedView :: View
  m_cancelling :: bool
  m_renderingState :: RenderingState

text \<open>The colour \<^verbatim>\<open>c\<close> that the body of the inner loop computes for the pixel
  \<open>(x, y)\<close>.\<close>

definition pixelColour :: "MandelbrotRenderer \<Rightarrow> int \<Rightarrow> int \<Rightarrow> Color" where
  "pixelColour R x y =
     (let z = complexAtPixel (m_renderingView R) x y;
          m = mandelbrot (m_renderingView R) z
      in if m < 1 then hueToRGB (360 * m) else Color_default)"

text \<open>The four stores through \<^verbatim>\<open>currentPixel = m_renderingPixels + 4 * (y * m_width + x)\<close>.\<close>

definition putPixel :: "MandelbrotRenderer \<Rightarrow> int \<Rightarrow> int \<Rightarrow> (int \<Rightarrow> 8 word) \<Rightarrow> (int \<Rightarrow> 8 word)" where
  "putPixel R x y pixels =
     (let c = pixelColour R x y;
          currentPixel = 4 * (y * m_width R + x)
      in pixels(currentPixel := col_r c, currentPixel + 1 := col_g c,
                currentPixel + 2 := col_b c, currentPixel + 3 := 255))"

text \<open>The inner loop \<^verbatim>\<open>for (int x = 0; x < m_width; ++x)\<close> from \<open>x\<close> on.\<close>

function render_row :: "MandelbrotRenderer \<Rightarrow> int \<Rightarrow> int \<Rightarrow> (int \<Rightarrow> 8 word) \<Rightarrow> (int \<Rightarrow> 8 word)" where
  "render_row R y x pixels =
     (if x < m_width R then render_row R y (x + 1) (putPixel R x y pixels) else pixels)"
  by pat_completeness auto
termination
  by (relation "measure (\<lambda>(R, y, x, pixels). nat (m_width R - x))") auto

declare render_row.simps [simp del]

text \<open>The outer loop \<^verbatim>\<open>for (int y = 0; y < m_height; ++y)\<close> from \<open>y\<close> on, with the
  early exit on \<^verbatim>\<open>m_cancelling\<close>. The rows write disjoint bytes, so the parallel loop
  stores what the sequential one stores.\<close>

function render_rows :: "MandelbrotRenderer \<Rightarrow> int \<Rightarrow> (int \<Rightarrow> 8 word) \<Rightarrow> (int \<Rightarrow> 8 word)" where
  "render_rows R y pixels =
     (if y < m_height R then
        (if m_cancelling R then pixels
         else render_rows R (y + 1) (render_row R y 0 pixels))
      else pixels)"
  by pat_completeness auto
termination
  by (relation "measure (\<lambda>(R, y, pixels). nat (m_height R - y))") auto

declare render_rows.simps [simp del]

definition render :: "MandelbrotRenderer \<Rightarrow> MandelbrotRenderer" where
  "render R = R\<lparr>m_renderingPixels := render_rows R 0 (m_renderingPixels R),
               m_renderingState := Completed\<rparr>"

text \<open>A renderer on the view of \<^verbatim>\<open>Main.cpp\<close> with both buffers cleared, as
  \<^verbatim>\<open>draw\<close> leaves them before it launches the rendering thread.\<close>

definition main_renderer :: MandelbrotRenderer where
  "main_renderer =
     \<lparr>m_width = 1200, m_height = 900,
      m_renderingPixels = (\<lambda>i. 0), m_completedPixels = (\<lambda>i. 0),
      m_renderingView = main_view, m_completedView = main_view,
      m_cancelling = False, m_renderingState = Rendering\<rparr>"

section \<open>Properties of the coordinate transform\<close>

subsection \<open>Exact arithmetic\<close>

text \<open>With exact arithmetic \<^verbatim>\<open>pixelAtComplex\<close> inverts \<^verbatim>\<open>complexAtPixel\<close>.\<close>

lemma static_cast_int_of_int: "static_cast_int (real_of_int k) = k"
  by (simp add: static_cast_int_def)

lemma round_trip_component:
  fixes a b :: int and c s H :: real
  assumes "s \<noteq> 0" and "H \<noteq> 0"
  shows "static_cast_int
           ((1 / 2) * ((c + (s / H) * real_of_int (2 * a - b) - c) * (H / s) + real_of_int b)) = a"
proof -
  have "(c + (s / H) * real_of_int (2 * a - b) - c) * (H / s) = real_of_int (2 * a - b)"
    using assms by simp
  then have "(1 / 2) * ((c + (s / H) * real_of_int (2 * a - b) - c) * (H / s) + real_of_int b)
      = real_of_int a"
    by simp
  then show ?thesis
    by (simp only: static_cast_int_of_int)
qed

lemma pixelAtComplex_complexAtPixel:
  assumes "m_scale v \<noteq> 0" and "snd (m_screenSize v) \<noteq> 0"
  shows "pixelAtComplex v (fst (complexAtPixel v px py)) (snd (complexAtPixel v px py)) = (px, py)"
proof -
  have H: "real_of_int (snd (m_screenSize v)) \<noteq> 0"
    using assms(2) by simp
  show ?thesis
    unfolding pixelAtComplex_def complexAtPixel_def
    by (simp only: fst_conv snd_conv round_trip_component [OF assms(1) H])
qed

lemmas view_defs = setDirty_def updateViewport_def setViewport_def setScale_def zoomTo_def
  zoomBy_def resizeScreen_def moveBy_Complex_def moveBy_def moveTo_Complex_def moveTo_def
  ComplexRect_of_def Let_def

lemma main_view_fields:
  "m_dirty main_view" "m_scale main_view = 2" "m_zoom main_view = 1"
  "m_centre main_view = (- (1 / 2), 0)" "m_screenSize main_view = (1200, 900)"
  "m_aspectRatio main_view = 4 / 3" "\<not> m_zoomBoxIsShown main_view"
  by (simp_all add: main_view_def View_init_def zoomTo_def moveTo_def updateViewport_def
      setDirty_def Let_def)

subsection \<open>Rounding to double\<close>

lemma round_to_even_error: "\<bar>real_of_int (round_to_even x) - x\<bar> \<le> 1 / 2"
proof -
  have "real_of_int \<lfloor>x\<rfloor> \<le> x" "x < real_of_int \<lfloor>x\<rfloor> + 1"
    by linarith+
  then show ?thesis
    by (auto simp: round_to_even_def Let_def)
qed

lemma round_to_even_of_int: "round_to_even (real_of_int n) = n"
  by (simp add: round_to_even_def)

lemma to_double_zero: "to_double 0 = 0"
  by (simp add: to_double_def)

lemma to_double_error: "\<bar>to_double x - x\<bar> \<le> \<bar>x\<bar> / 2 ^ 53"
proof (cases "x = 0")
  case True
  then show ?thesis by (simp add: to_double_def)
next
  case False
  define e where "e = \<lfloor>log 2 \<bar>x\<bar>\<rfloor>"
  define q where "q = 2 powr (real_of_int e - 52)"
  have qpos: "0 < q" by (simp add: q_def)
  have "2 powr real_of_int e \<le> \<bar>x\<bar>"
    using False floor_log_eq_powr_iff [of "\<bar>x\<bar>" 2 e] by (simp add: e_def)
  moreover have "2 powr real_of_int e = q * 2 ^ 52"
    by (simp add: q_def powr_diff)
  ultimately have low: "q * 2 ^ 52 \<le> \<bar>x\<bar>" by simp
  have td: "to_double x = real_of_int (round_to_even (x / q)) * q"
    using False by (simp add: to_double_def Let_def e_def q_def)
  have "\<bar>to_double x - x\<bar> = \<bar>real_of_int (round_to_even (x / q)) - x / q\<bar> * q"
  proof -
    have "to_double x - x = (real_of_int (round_to_even (x / q)) - x / q) * q"
      using qpos by (simp add: td field_simps)
    then show ?thesis using qpos by (simp add: abs_mult)
  qed
  also have "\<dots> \<le> (1 / 2) * q"
    using round_to_even_error [of "x / q"] qpos by (intro mult_right_mono) simp_all
  also have "\<dots> \<le> \<bar>x\<bar> / 2 ^ 53"
    using low by simp
  finally show ?thesis .
qed


lemma to_double_bound: "\<bar>to_double x\<bar> \<le> 2 * \<bar>x\<bar>"
proof -
  have "\<bar>x\<bar> / 2 ^ 53 \<le> \<bar>x\<bar>" by (simp add: divide_le_eq)
  with to_double_error [of x] show ?thesis by linarith
qed

lemma static_cast_int_near:
  assumes "\<bar>p - real_of_int n\<bar> < 1"
  shows "\<bar>static_cast_int p - n\<bar> \<le> 1"
proof -
  have "real_of_int n - 1 < p" "p < real_of_int n + 1"
    using assms by linarith+
  then have "n - 1 \<le> \<lfloor>p\<rfloor>" "\<lfloor>p\<rfloor> \<le> n" "n \<le> \<lceil>p\<rceil>" "\<lceil>p\<rceil> \<le> n + 1"
    by linarith+
  then show ?thesis by (simp add: static_cast_int_def)
qed

lemma to_double_error_num: "\<bar>to_double x - x\<bar> \<le> \<bar>x\<bar> / 9007199254740992"
  using to_double_error [of x] by simp

lemma le_div_trans:
  fixes a b B :: real
  shows "a \<le> b / 9007199254740992 \<Longrightarrow> b \<le> B \<Longrightarrow> a \<le> B / 9007199254740992"
  by simp

lemma round_to_even_near:
  assumes "\<bar>x - real_of_int n\<bar> < 1 / 2"
  shows "round_to_even x = n"
proof (cases "real_of_int n \<le> x")
  case True
  with assms have "\<lfloor>x\<rfloor> = n" by linarith
  with assms True show ?thesis by (simp add: round_to_even_def)
next
  case False
  with assms have f: "\<lfloor>x\<rfloor> = n - 1" by linarith
  have "1 / 2 < x - real_of_int (n - 1)" using assms False by simp
  with f show ?thesis by (simp add: round_to_even_def)
qed

lemma to_double_of_int:
  assumes "n \<noteq> 0" and "\<bar>n\<bar> < 2 ^ 53"
  shows "to_double (real_of_int n) = real_of_int n"
proof -
  define e where "e = \<lfloor>log 2 \<bar>real_of_int n\<bar>\<rfloor>"
  have one: "1 \<le> \<bar>real_of_int n\<bar>" using assms(1) by (simp flip: of_int_abs)
  then have "0 \<le> log 2 \<bar>real_of_int n\<bar>" by simp
  then have e0: "0 \<le> e" by (simp add: e_def)
  have "\<bar>real_of_int n\<bar> < 2 powr 53"
    using assms(2) by (simp flip: of_int_abs)
  then have "log 2 \<bar>real_of_int n\<bar> < 53"
    using one by (simp add: log_less_iff)
  then have e52: "e \<le> 52" by (simp add: e_def floor_less_iff)
  define k where "k = nat (52 - e)"
  have "real_of_int e - 52 = - real k" using e52 by (simp add: k_def)
  then have q: "2 powr (real_of_int e - 52) = 1 / 2 ^ k"
    by (simp add: powr_minus_divide powr_realpow)
  have "real_of_int n / (1 / 2 ^ k) = real_of_int (n * 2 ^ k)" by simp
  then have "round_to_even (real_of_int n / (1 / 2 ^ k)) = n * 2 ^ k"
    by (simp only: round_to_even_of_int)
  then show ?thesis
    using assms(1) by (simp add: to_double_def Let_def e_def [symmetric] q)
qed

lemma to_double_absorb:
  assumes "- (1 / 2 ^ 55) \<le> t" and "t \<le> 0"
  shows "to_double (- (1 / 2) + t) = - (1 / 2)"
proof -
  define y where "y = - (1 / 2) + t"
  have y: "y \<noteq> 0" "\<bar>y\<bar> = 1 / 2 - t" using assms by (simp_all add: y_def)
  have "2 powr real_of_int (- 1) \<le> \<bar>y\<bar> \<and> \<bar>y\<bar> < 2 powr real_of_int (- 1 + 1)"
    using assms by (simp add: y powr_minus_divide)
  then have e: "\<lfloor>log 2 \<bar>y\<bar>\<rfloor> = - 1"
    using y(1) floor_log_eq_powr_iff [of "\<bar>y\<bar>" 2 "- 1"] by simp
  have q: "2 powr (- 53) = (1::real) / 2 ^ 53"
    by (simp add: powr_minus_divide)
  have "\<bar>y / (1 / 2 ^ 53) - real_of_int (- (2 ^ 52))\<bar> = \<bar>t\<bar> * 2 ^ 53"
    by (simp add: y_def)
  also have "\<dots> < 1 / 2" using assms by simp
  finally have "round_to_even (y / (1 / 2 ^ 53)) = - (2 ^ 52)"
    by (rule round_to_even_near)
  then have "to_double y = - (1 / 2)"
    using y(1) by (simp add: to_double_def Let_def e q)
  then show ?thesis by (simp only: y_def)
qed

subsection \<open>The round trip in double arithmetic\<close>

text \<open>The error of one coordinate of the round trip: \<open>c\<close> is the coordinate of the
  centre, \<open>s\<close> the scale, \<open>H\<close> the screen height, \<open>d\<close> the integer \<open>2 * x - W\<close>, and \<open>D\<close>
  bounds \<open>d\<close> and \<open>W\<close>. Each rounding adds a relative error of at most \<open>2^-53\<close>; the
  errors add up to less than \<open>6 * Q / 2^53\<close> pixels, where \<open>Q = |c| * H / s + 2 * D\<close>.\<close>

lemma coordinate_error:
  fixes c s H d W D :: real
  assumes s: "0 < s" and H: "0 < H" and d: "\<bar>d\<bar> \<le> D" and W: "\<bar>W\<bar> \<le> D"
    and budget: "\<bar>c\<bar> * H / s + 2 * D \<le> 2 ^ 50"
  shows "\<bar>to_double ((1 / 2) * to_double (to_double (to_double
           (to_double (c + to_double (to_double (s / H) * d)) - c) * to_double (H / s)) + W))
         - (d + W) / 2\<bar> < 1"
proof -
  define r where "r = s / H"
  define ri where "ri = H / s"
  define A where "A = r * D"
  define P where "P = \<bar>c\<bar> + 2 * A"
  define Q where "Q = P * ri"
  define t1 where "t1 = to_double r"
  define t2 where "t2 = to_double (t1 * d)"
  define X where "X = to_double (c + t2)"
  define t3 where "t3 = to_double (X - c)"
  define t4 where "t4 = to_double ri"
  define t5 where "t5 = to_double (t3 * t4)"
  define t6 where "t6 = to_double (t5 + W)"
  define t7 where "t7 = to_double ((1 / 2) * t6)"
  have r: "0 < r" and ri: "0 < ri" and rri: "r * ri = 1"
    using s H by (simp_all add: r_def ri_def)
  have D: "0 \<le> D" using d by linarith
  have A: "0 \<le> A" using r D by (simp add: A_def)
  have P: "0 \<le> P" "2 * A \<le> P" "\<bar>c\<bar> \<le> P" using A by (simp_all add: P_def)
  have Qeq: "Q = \<bar>c\<bar> * H / s + 2 * D"
  proof -
    have Ari: "A * ri = D"
    proof -
      have "A * ri = D * (r * ri)" by (simp add: A_def)
      then show ?thesis by (simp only: rri mult_1_right)
    qed
    have "Q = \<bar>c\<bar> * ri + 2 * (A * ri)" by (simp add: Q_def P_def algebra_simps)
    also have "\<dots> = \<bar>c\<bar> * ri + 2 * D" by (simp only: Ari)
    also have "\<bar>c\<bar> * ri = \<bar>c\<bar> * H / s" by (simp add: ri_def)
    finally show ?thesis .
  qed
  have Q: "Q \<le> 2 ^ 50" "2 * D \<le> Q" "0 \<le> Q"
  proof -
    show "Q \<le> 2 ^ 50" using budget by (simp add: Qeq)
    have "0 \<le> \<bar>c\<bar> * H / s" using s H by simp
    then show "2 * D \<le> Q" by (simp add: Qeq)
    then show "0 \<le> Q" using D by linarith
  qed
  \<comment> \<open>the scaled step \<open>t1 = fl (s / H)\<close>\<close>
  have e1: "\<bar>t1 - r\<bar> \<le> r / 9007199254740992"
    using to_double_error_num [of r] r by (simp add: t1_def)
  have b1: "\<bar>t1\<bar> \<le> 2 * r"
    using to_double_bound [of r] r by (simp add: t1_def)
  \<comment> \<open>\<open>t2 = fl (t1 * d)\<close> against \<open>r * d\<close>\<close>
  have m1: "\<bar>t1 * d\<bar> \<le> 2 * A"
  proof -
    have "\<bar>t1\<bar> * \<bar>d\<bar> \<le> (2 * r) * D"
      using b1 d by (intro mult_mono) simp_all
    then show ?thesis by (simp add: abs_mult A_def)
  qed
  have m2: "\<bar>t1 * d - r * d\<bar> \<le> A / 9007199254740992"
  proof -
    have "\<bar>t1 - r\<bar> * \<bar>d\<bar> \<le> (r / 9007199254740992) * D"
      using e1 d r by (intro mult_mono) simp_all
    moreover have "t1 * d - r * d = (t1 - r) * d" by (simp add: algebra_simps)
    ultimately show ?thesis by (simp add: abs_mult A_def)
  qed
  have m3: "\<bar>r * d\<bar> \<le> A"
  proof -
    have "\<bar>r\<bar> * \<bar>d\<bar> \<le> r * D" using r d by (intro mult_mono) simp_all
    then show ?thesis by (simp add: abs_mult A_def)
  qed
  have "\<bar>t2 - t1 * d\<bar> \<le> \<bar>t1 * d\<bar> / 9007199254740992"
    unfolding t2_def by (rule to_double_error_num)
  then have "\<bar>t2 - t1 * d\<bar> \<le> 2 * A / 9007199254740992" using m1 by (rule le_div_trans)
  with m2 have e2: "\<bar>t2 - r * d\<bar> \<le> 3 * A / 9007199254740992" by linarith
  with m3 A have b2: "\<bar>t2\<bar> \<le> 2 * A" by linarith
  \<comment> \<open>\<open>X = fl (c + t2)\<close> and the difference \<open>X - c\<close>\<close>
  have "(X - c) - t2 = X - (c + t2)" by simp
  then have "\<bar>(X - c) - t2\<bar> = \<bar>to_double (c + t2) - (c + t2)\<bar>"
    by (simp only: X_def)
  then have "\<bar>(X - c) - t2\<bar> \<le> \<bar>c + t2\<bar> / 9007199254740992"
    using to_double_error_num [of "c + t2"] by (simp only:)
  moreover have "\<bar>c + t2\<bar> \<le> P" using b2 by (simp add: P_def)
  ultimately have eX: "\<bar>(X - c) - t2\<bar> \<le> P / 9007199254740992" by (rule le_div_trans)
  have ba: "\<bar>X - c\<bar> \<le> 2 * P" using eX b2 P by linarith
  have "\<bar>t3 - (X - c)\<bar> \<le> \<bar>X - c\<bar> / 9007199254740992"
    unfolding t3_def by (rule to_double_error_num)
  then have "\<bar>t3 - (X - c)\<bar> \<le> 2 * P / 9007199254740992" using ba by (rule le_div_trans)
  with eX e2 P have e3: "\<bar>t3 - r * d\<bar> \<le> 5 * P / 9007199254740992" by linarith
  with m3 P have b3: "\<bar>t3\<bar> \<le> P" by linarith
  \<comment> \<open>\<open>t4 = fl (H / s)\<close> and the product \<open>t5 = fl (t3 * t4)\<close> against \<open>d\<close>\<close>
  have e4: "\<bar>t4 - ri\<bar> \<le> ri / 9007199254740992"
    using to_double_error_num [of ri] ri by (simp add: t4_def)
  have b4: "\<bar>t4\<bar> \<le> 2 * ri"
    using to_double_bound [of ri] ri by (simp add: t4_def)
  have p1: "\<bar>t3 * t4\<bar> \<le> 2 * Q"
  proof -
    have "\<bar>t3\<bar> * \<bar>t4\<bar> \<le> P * (2 * ri)"
      using b3 b4 P by (intro mult_mono) simp_all
    then show ?thesis by (simp add: abs_mult Q_def)
  qed
  have p2: "\<bar>t3 * t4 - t3 * ri\<bar> \<le> Q / 9007199254740992"
  proof -
    have "\<bar>t3\<bar> * \<bar>t4 - ri\<bar> \<le> P * (ri / 9007199254740992)"
      using b3 e4 P by (intro mult_mono) simp_all
    moreover have "t3 * t4 - t3 * ri = t3 * (t4 - ri)" by (simp add: algebra_simps)
    ultimately show ?thesis by (simp add: abs_mult Q_def)
  qed
  have p3: "\<bar>t3 * ri - d\<bar> \<le> 5 * Q / 9007199254740992"
  proof -
    have "t3 * ri - d = (t3 - r * d) * ri"
      using rri by (simp add: algebra_simps)
    moreover have "\<bar>t3 - r * d\<bar> * \<bar>ri\<bar> \<le> (5 * P / 9007199254740992) * ri"
      using e3 ri P by (intro mult_mono) simp_all
    ultimately show ?thesis by (simp add: abs_mult Q_def)
  qed
  have "\<bar>t5 - t3 * t4\<bar> \<le> \<bar>t3 * t4\<bar> / 9007199254740992"
    unfolding t5_def by (rule to_double_error_num)
  then have "\<bar>t5 - t3 * t4\<bar> \<le> 2 * Q / 9007199254740992" using p1 by (rule le_div_trans)
  with p2 p3 have e5: "\<bar>t5 - d\<bar> \<le> 8 * Q / 9007199254740992" by linarith
  \<comment> \<open>the sum \<open>t6 = fl (t5 + W)\<close> and the half \<open>t7\<close>\<close>
  have s1: "\<bar>t5 + W\<bar> \<le> 2 * Q" using e5 d W Q by linarith
  have "\<bar>t6 - (t5 + W)\<bar> \<le> \<bar>t5 + W\<bar> / 9007199254740992"
    unfolding t6_def by (rule to_double_error_num)
  then have "\<bar>t6 - (t5 + W)\<bar> \<le> 2 * Q / 9007199254740992" using s1 by (rule le_div_trans)
  with e5 have e6: "\<bar>t6 - (d + W)\<bar> \<le> 10 * Q / 9007199254740992" by linarith
  with d W Q have b6: "\<bar>t6\<bar> \<le> 2 * Q" by linarith
  have "\<bar>t7 - (1 / 2) * t6\<bar> \<le> \<bar>(1 / 2) * t6\<bar> / 9007199254740992"
    unfolding t7_def by (rule to_double_error_num)
  moreover have "\<bar>(1 / 2) * t6\<bar> \<le> Q" using b6 by simp
  ultimately have "\<bar>t7 - (1 / 2) * t6\<bar> \<le> Q / 9007199254740992" by (rule le_div_trans)
  moreover define a b where "a = t7 - (1 / 2) * t6" and "b = t6 - (d + W)"
  ultimately have "\<bar>a\<bar> \<le> Q / 9007199254740992" and "\<bar>b\<bar> \<le> 10 * Q / 9007199254740992"
    using e6 by simp_all
  then have "\<bar>a + b / 2\<bar> \<le> 6 * Q / 9007199254740992" by linarith
  moreover have "a + b / 2 = t7 - (d + W) / 2" by (simp add: a_def b_def field_simps)
  ultimately have "\<bar>t7 - (d + W) / 2\<bar> \<le> 6 * Q / 9007199254740992" by simp
  with Q(1) have "\<bar>t7 - (d + W) / 2\<bar> < 1" by simp
  then show ?thesis
    by (simp only: t7_def t6_def t5_def t4_def t3_def X_def t2_def t1_def r_def ri_def)
qed

lemma deep_view_fields:
  "m_scale deep_view = 1 / 2 ^ 60" "m_centre deep_view = (- (1 / 2), 0)"
  "m_screenSize deep_view = (1200, 900)"
  by (simp_all add: deep_view_def view_defs main_view_fields powr_minus_divide)

lemma deep_view_round_trip: "fst (round_trip_double deep_view 0 0) = 600"
proof -
  define r :: real where "r = 1 / 2 ^ 60 / 900"
  define t1 where "t1 = to_double r"
  define t2 where "t2 = to_double (t1 * (- 1200))"
  have r: "0 < r" by (simp add: r_def)
  have "\<bar>t1 - r\<bar> \<le> r / 9007199254740992"
    using to_double_error_num [of r] r by (simp add: t1_def)
  then have t1: "0 \<le> t1" "t1 \<le> 2 * r" using r by linarith+
  define x where "x = t1 * (- 1200)"
  have x: "x \<le> 0" "- (2400 * r) \<le> x" using t1 by (simp_all add: x_def)
  have "\<bar>t2 - x\<bar> \<le> \<bar>x\<bar> / 9007199254740992"
    unfolding t2_def x_def [symmetric] by (rule to_double_error_num)
  with x have "t2 \<le> 0" "- (4800 * r) \<le> t2" by linarith+
  moreover have "- (1 / 2 ^ 55) \<le> - (4800 * r)" by (simp add: r_def)
  ultimately have "to_double (- (1 / 2) + t2) = - (1 / 2)"
    by (intro to_double_absorb) linarith+
  then have X: "fst (complexAtPixel_double deep_view 0 0) = - (1 / 2)"
    by (simp add: complexAtPixel_double_def deep_view_fields t2_def t1_def r_def)
  have "to_double 1200 = 1200" "to_double 600 = 600"
    using to_double_of_int [of 1200] to_double_of_int [of 600] by simp_all
  then show ?thesis
    by (simp add: round_trip_double_def pixelAtComplex_double_def X deep_view_fields
        to_double_zero static_cast_int_def)
qed

text \<open>
  Claim C1, as amended. The claim reads: for every view with positive screen dimensions
  and positive scale and every pixel inside the screen, \<^verbatim>\<open>pixelAtComplex\<close> of
  \<^verbatim>\<open>complexAtPixel\<close> is within one pixel of the pixel. In double arithmetic this holds
  while the centre is not too far from the origin for the scale: for screen dimensions
  up to \<open>2^30\<close>, a scale between \<open>2^-900\<close> and \<open>2^900\<close> (so that no result leaves the range
  of \<^verbatim>\<open>double\<close>), and \<open>|centre.x| * H / scale + 2 * W \<le> 2^50\<close> and
  \<open>|centre.y| * H / scale + 2 * H \<le> 2^50\<close>, where \<open>W\<close> and \<open>H\<close> are the screen width and
  height, both coordinates of the round trip differ from the pixel by at most one.
\<close>

theorem C1_round_trip_double_amended:
  assumes "0 < fst (m_screenSize v)" and "fst (m_screenSize v) \<le> 2 ^ 30"
    and "0 < snd (m_screenSize v)" and "snd (m_screenSize v) \<le> 2 ^ 30"
    and "1 / 2 ^ 900 \<le> m_scale v" and "m_scale v \<le> 2 ^ 900"
    and "0 \<le> px" and "px < fst (m_screenSize v)"
    and "0 \<le> py" and "py < snd (m_screenSize v)"
    and "\<bar>fst (m_centre v)\<bar> * real_of_int (snd (m_screenSize v)) / m_scale v
           + 2 * real_of_int (fst (m_screenSize v)) \<le> 2 ^ 50"
    and "\<bar>snd (m_centre v)\<bar> * real_of_int (snd (m_screenSize v)) / m_scale v
           + 2 * real_of_int (snd (m_screenSize v)) \<le> 2 ^ 50"
  shows "\<bar>fst (round_trip_double v px py) - px\<bar> \<le> 1 \<and>
         \<bar>snd (round_trip_double v px py) - py\<bar> \<le> 1"
proof -
  define W where "W = real_of_int (fst (m_screenSize v))"
  define H where "H = real_of_int (snd (m_screenSize v))"
  have s: "0 < m_scale v"
  proof -
    have "(0::real) < 1 / 2 ^ 900" by simp
    with assms(5) show ?thesis by linarith
  qed
  have H: "0 < H" using assms(3) by (simp add: H_def)
  have dx: "\<bar>real_of_int (2 * px - fst (m_screenSize v))\<bar> \<le> W"
    using assms(7,8) unfolding W_def of_int_abs [symmetric] of_int_le_iff by linarith
  have dy: "\<bar>real_of_int (2 * py - snd (m_screenSize v))\<bar> \<le> H"
    using assms(9,10) unfolding H_def of_int_abs [symmetric] of_int_le_iff by linarith
  have Wb: "\<bar>W\<bar> \<le> W" using assms(1) by (simp add: W_def)
  have Hb: "\<bar>H\<bar> \<le> H" using H by simp
  have midx: "(real_of_int (2 * px - fst (m_screenSize v)) + W) / 2 = real_of_int px"
    by (simp add: W_def)
  have midy: "(real_of_int (2 * py - snd (m_screenSize v)) + H) / 2 = real_of_int py"
    by (simp add: H_def)
  have "\<bar>fst (round_trip_double v px py) - px\<bar> \<le> 1"
    unfolding round_trip_double_def pixelAtComplex_double_def complexAtPixel_double_def
      fst_conv snd_conv
    using coordinate_error [OF s H dx Wb, of "fst (m_centre v)"] assms(11)
    unfolding midx W_def [symmetric] H_def [symmetric]
    by (intro static_cast_int_near) simp
  moreover have "\<bar>snd (round_trip_double v px py) - py\<bar> \<le> 1"
    unfolding round_trip_double_def pixelAtComplex_double_def complexAtPixel_double_def
      fst_conv snd_conv
    using coordinate_error [OF s H dy Hb, of "snd (m_centre v)"] assms(12)
    unfolding midy W_def [symmetric] H_def [symmetric]
    by (intro static_cast_int_near) simp
  ultimately show ?thesis by simp
qed

text \<open>At zoom \<open>-60\<close> the view has positive screen dimensions and positive scale, and the
  round trip of the pixel \<open>(0, 0)\<close> ends at the column 600: the offset of the pixel from
  the centre \<open>-0.5\<close> is below half the spacing of the doubles at \<open>0.5\<close>, so
  \<^verbatim>\<open>complexAtPixel\<close> returns the centre itself.\<close>

theorem C1_counterexample:
  "0 < fst (m_screenSize deep_view) \<and> 0 < snd (m_screenSize deep_view) \<and>
   0 < m_scale deep_view \<and>
   fst (round_trip_double deep_view 0 0) = 600 \<and>
   \<not> \<bar>fst (round_trip_double deep_view 0 0) - 0\<bar> \<le> 1"
  by (simp add: deep_view_fields deep_view_round_trip)

text \<open>On the first frame the bound holds: \<open>0.5 * 900 / 2 + 2 * 1200 = 2625\<close>.\<close>

theorem C1_round_trip_double_witness:
  "\<bar>fst (round_trip_double main_view 89 0) - 89\<bar> \<le> 1 \<and>
   \<bar>snd (round_trip_double main_view 89 0) - 0\<bar> \<le> 1"
  using C1_round_trip_double_amended [of main_view 89 0]
  by (simp add: main_view_fields)

section \<open>Properties of the mutators\<close>

lemma zoomBoxContinue_nav:
  "m_dirty (zoomBoxContinue v px py) = m_dirty v"
  "m_scale (zoomBoxContinue v px py) = m_scale v"
  "m_zoom (zoomBoxContinue v px py) = m_zoom v"
  "m_centre (zoomBoxContinue v px py) = m_centre v"
  "m_rect (zoomBoxContinue v px py) = m_rect v"
  "m_screenSize (zoomBoxContinue v px py) = m_screenSize v"
  "m_aspectRatio (zoomBoxContinue v px py) = m_aspectRatio v"
  "m_zoomBoxStartCorner (zoomBoxContinue v px py) = m_zoomBoxStartCorner v"
  by (simp_all add: zoomBoxContinue_def Let_def)

lemma zoomBoxEnd_scale_pos:
  assumes "0 < m_scale v" and "0 < snd (m_screenSize v)"
  shows "0 < m_scale (zoomBoxEnd v px py)"
  using assms
  by (simp add: zoomBoxEnd_def Let_def zoomBoxContinue_nav setScale_def moveTo_Complex_def
      updateViewport_def setDirty_def)

text \<open>
  Claim C2, as amended. The claim reads: every mutator keeps \<open>scale > 0\<close>, for every
  argument. The setters take the new scale from their argument without a check, and a
  power of two leaves the range of \<^verbatim>\<open>double\<close> for a large exponent, so the statement that
  holds is: from a view with positive scale, \<^verbatim>\<open>moveTo\<close> and \<^verbatim>\<open>moveBy\<close> leave the scale
  positive for every argument; \<^verbatim>\<open>zoomTo(z)\<close> does for \<open>-1022 \<le> z \<le> 1023\<close> and
  \<^verbatim>\<open>zoomBy(dz)\<close> when the new zoom lies between \<open>-1023\<close> and \<open>1023\<close>; \<^verbatim>\<open>zoomBoxEnd\<close>
  does when the screen height is positive and the scale lies between \<open>2^-900\<close> and
  \<open>2^900\<close>; \<^verbatim>\<open>setScale(s)\<close> does exactly when \<open>s > 0\<close>; \<^verbatim>\<open>setViewport(r)\<close> does not
  when the height of \<open>r\<close> is zero or negative and does when it is at least \<open>2^-1000\<close>;
  \<^verbatim>\<open>resizeScreen(w, h)\<close>, for a scale between \<open>2^-900\<close> and \<open>2^900\<close>, does exactly when
  the ratio of \<open>h\<close> to the previous screen height is positive. Inside these ranges no
  result of the source leaves the range of \<^verbatim>\<open>double\<close>.
\<close>

theorem C2_scale_positive_amended:
  assumes "scale_positive v"
  shows "scale_positive (moveTo v cx cy) \<and> scale_positive (moveTo_Complex v p) \<and>
         scale_positive (moveBy v dx dy) \<and> scale_positive (moveBy_Complex v d) \<and>
         (- 1022 \<le> z \<and> z \<le> 1023 \<longrightarrow> scale_positive (zoomTo v z)) \<and>
         (\<bar>m_zoom v + dz\<bar> \<le> 1023 \<longrightarrow> scale_positive (zoomBy v dz)) \<and>
         (0 < snd (m_screenSize v) \<and> 1 / 2 ^ 900 \<le> m_scale v \<and> m_scale v \<le> 2 ^ 900 \<longrightarrow>
            scale_positive (zoomBoxEnd v px py)) \<and>
         (scale_positive (setScale v s) \<longleftrightarrow> 0 < s) \<and>
         (rect_height r \<le> 0 \<longrightarrow> \<not> scale_positive (setViewport v r)) \<and>
         (1 / 2 ^ 1000 \<le> rect_height r \<longrightarrow> scale_positive (setViewport v r)) \<and>
         (snd (m_screenSize v) \<noteq> 0 \<and> 1 / 2 ^ 900 \<le> m_scale v \<and> m_scale v \<le> 2 ^ 900 \<longrightarrow>
            (scale_positive (resizeScreen v w h) \<longleftrightarrow>
               0 < real_of_int h / real_of_int (snd (m_screenSize v))))"
proof -
  have box: "scale_positive (zoomBoxEnd v px py)" if "0 < snd (m_screenSize v)"
    using assms that zoomBoxEnd_scale_pos by (simp add: scale_positive_def)
  have resize: "scale_positive (resizeScreen v w h) \<longleftrightarrow>
            0 < real_of_int h / real_of_int (snd (m_screenSize v))"
  proof -
    have "m_scale (resizeScreen v w h) =
        m_scale v * (real_of_int h / real_of_int (snd (m_screenSize v)))"
      by (simp add: view_defs)
    then show ?thesis
      using assms unfolding scale_positive_def by (simp only: zero_less_mult_iff) auto
  qed
  have viewport: "scale_positive (setViewport v r)" if "1 / 2 ^ 1000 \<le> rect_height r"
  proof -
    have "(0::real) < 1 / 2 ^ 1000" by simp
    with that have "0 < rect_height r" by linarith
    then show ?thesis by (simp add: scale_positive_def view_defs)
  qed
  have rest: "scale_positive (moveTo v cx cy) \<and> scale_positive (moveTo_Complex v p) \<and>
         scale_positive (moveBy v dx dy) \<and> scale_positive (moveBy_Complex v d) \<and>
         scale_positive (zoomTo v z) \<and> scale_positive (zoomBy v dz) \<and>
         (scale_positive (setScale v s) \<longleftrightarrow> 0 < s) \<and>
         (rect_height r \<le> 0 \<longrightarrow> \<not> scale_positive (setViewport v r))"
    using assms by (simp add: scale_positive_def view_defs)
  from box resize viewport rest show ?thesis by blast
qed

text \<open>The view of \<^verbatim>\<open>Main.cpp\<close> has scale 2; \<^verbatim>\<open>setScale(0)\<close>, \<^verbatim>\<open>setViewport\<close> of a
  rectangle of height 0 and \<^verbatim>\<open>resizeScreen(1200, 0)\<close> each leave a scale that is not
  positive.\<close>

theorem C2_counterexample:
  "scale_positive main_view \<and> \<not> scale_positive (setScale main_view 0) \<and>
   \<not> scale_positive (setViewport main_view
        \<lparr>rect_left = 0, rect_top = 0, rect_width = 0, rect_height = 0\<rparr>) \<and>
   \<not> scale_positive (resizeScreen main_view 1200 0)"
  by (simp add: scale_positive_def main_view_fields view_defs)

theorem C2_scale_positive_witness:
  "scale_positive main_view \<and>
   scale_positive (zoomTo main_view (- 60)) \<and>
   scale_positive (zoomBy main_view (- 1)) \<and>
   scale_positive (zoomBoxEnd main_view 10 20) \<and>
   scale_positive (setScale main_view 3) \<and>
   scale_positive (setViewport main_view
     \<lparr>rect_left = 0, rect_top = 0, rect_width = 4, rect_height = 3\<rparr>) \<and>
   scale_positive (resizeScreen main_view 800 600)"
proof -
  have h: "scale_positive main_view" by (simp add: scale_positive_def main_view_fields)
  show ?thesis
    using h C2_scale_positive_amended [OF h, of 0 0 "(0, 0)" 0 0 "(0, 0)" "- 60" "- 1" 10 20 3
        "\<lparr>rect_left = 0, rect_top = 0, rect_width = 4, rect_height = 3\<rparr>" 800 600]
    by (simp add: main_view_fields)
qed



lemma box_zoomed_view_fields:
  "m_scale box_zoomed_view = 2 / 3" "m_zoom box_zoomed_view = log 2 (2 / 3)"
  "m_centre box_zoomed_view = (- (41 / 18), - (4 / 3))"
  by (simp_all add: box_zoomed_view_def zoomBoxEnd_def zoomBoxContinue_def zoomBoxBegin_def
      zoomBoxFit_def signbit_factor_def static_cast_int_def int_div_def
      complexAtPixel_Pixel_def main_view_fields view_defs)

lemma log2_two_thirds: "- 1 < log 2 (2 / 3 :: real)" "log 2 (2 / 3 :: real) < 0"
proof -
  have "log 2 (1 / 2 :: real) < log 2 (2 / 3)"
    by (subst log_less_cancel_iff) simp_all
  moreover have "log 2 (1 / 2 :: real) = - 1"
    by (simp add: log_divide)
  ultimately show "- 1 < log 2 (2 / 3 :: real)" by simp
  show "log 2 (2 / 3 :: real) < 0" by simp
qed

lemma trunc_after_wheel: "static_cast_int (1 - log 2 (2 / 3 :: real)) = 1"
proof -
  have "1 \<le> 1 - log 2 (2 / 3 :: real)" "1 - log 2 (2 / 3 :: real) < 2"
    using log2_two_thirds by simp_all
  then have "\<lfloor>1 - log 2 (2 / 3 :: real)\<rfloor> = 1"
    by (simp add: floor_eq_iff)
  then show ?thesis
    using log2_two_thirds by (simp add: static_cast_int_def)
qed

lemma wheel_after_box:
  "m_scale box_zoomed_view = 2 powr m_zoom box_zoomed_view"
  "m_scale (zoomBy box_zoomed_view (- 1)) = 1 / 2"
  "2 powr m_zoom (zoomBy box_zoomed_view (- 1)) = 1 / 3"
proof -
  show "m_scale box_zoomed_view = 2 powr m_zoom box_zoomed_view"
    by (simp add: box_zoomed_view_fields)
  have "- (log 2 (2 / 3 :: real) + - 1) = 1 - log 2 (2 / 3)" by simp
  then show "m_scale (zoomBy box_zoomed_view (- 1)) = 1 / 2"
    by (simp add: view_defs box_zoomed_view_fields trunc_after_wheel)
  show "2 powr m_zoom (zoomBy box_zoomed_view (- 1)) = 1 / 3"
    by (simp add: view_defs box_zoomed_view_fields powr_diff)
qed

text \<open>
  Claim C4 reads: \<open>scale = 2^zoom\<close> holds after every mutator, in particular after
  \<^verbatim>\<open>zoomBy\<close> and \<^verbatim>\<open>resizeScreen\<close>. Evaluated on the view of \<^verbatim>\<open>Main.cpp\<close>, where
  the relation holds: \<^verbatim>\<open>zoomBy(-0.25)\<close> leaves zoom \<open>3/4\<close> and scale \<open>1\<close>, because the
  exponent is cast to \<^verbatim>\<open>long\<close>; \<^verbatim>\<open>resizeScreen(1200, 450)\<close> leaves zoom \<open>1\<close> and
  scale \<open>1\<close>, because the zoom is not recomputed. In both states \<open>scale \<noteq> 2^zoom\<close>.
  The same happens through the mouse alone: after the box zoom \<open>box_zoomed_view\<close> the
  scale is \<open>2/3\<close> and the relation holds; one step of the wheel, \<^verbatim>\<open>zoomBy(-1)\<close>, then
  leaves scale \<open>1/2\<close> where \<open>2^zoom\<close> is \<open>1/3\<close>.
\<close>

theorem C4_scale_zoom_relation_broken:
  "m_scale main_view = 2 powr m_zoom main_view \<and>
   m_zoom (zoomBy main_view (- (1 / 4))) = 3 / 4 \<and>
   m_scale (zoomBy main_view (- (1 / 4))) = 1 \<and>
   m_scale (zoomBy main_view (- (1 / 4))) \<noteq> 2 powr m_zoom (zoomBy main_view (- (1 / 4))) \<and>
   m_zoom (resizeScreen main_view 1200 450) = 1 \<and>
   m_scale (resizeScreen main_view 1200 450) = 1 \<and>
   m_scale (resizeScreen main_view 1200 450) \<noteq> 2 powr m_zoom (resizeScreen main_view 1200 450) \<and>
   m_scale box_zoomed_view = 2 powr m_zoom box_zoomed_view \<and>
   m_scale (zoomBy box_zoomed_view (- 1)) = 1 / 2 \<and>
   2 powr m_zoom (zoomBy box_zoomed_view (- 1)) = 1 / 3"
proof -
  have z: "m_zoom (zoomBy main_view (- (1 / 4))) = 3 / 4"
    by (simp add: view_defs main_view_fields)
  have s: "m_scale (zoomBy main_view (- (1 / 4))) = 1"
    by (simp add: view_defs main_view_fields static_cast_int_def)
  have "(2::real) powr (3 / 4) \<noteq> 1"
    by (simp add: powr_eq_one_iff)
  with z s wheel_after_box show ?thesis
    by (simp add: view_defs main_view_fields)
qed

section \<open>Properties of the zoom box\<close>

lemma zoomBoxFit_zero: "zoomBoxFit a 0 0 = (0, 0)"
  by (simp add: zoomBoxFit_def)

lemma static_cast_int_ge_one: "1 \<le> r \<Longrightarrow> 1 \<le> static_cast_int r"
  by (simp add: static_cast_int_def le_floor_iff)

lemma static_cast_int_le_minus_one: "r \<le> - 1 \<Longrightarrow> static_cast_int r \<le> - 1"
  by (simp add: static_cast_int_def ceiling_le_iff)

lemma zoomBoxFit_then:
  "\<bar>w\<bar> < a * \<bar>h\<bar> \<Longrightarrow> zoomBoxFit a w h = (\<bar>h\<bar> * a * signbit_factor w, h)"
  by (simp add: zoomBoxFit_def)

lemma zoomBoxFit_else:
  "\<not> \<bar>w\<bar> < a * \<bar>h\<bar> \<Longrightarrow> zoomBoxFit a w h = (w, \<bar>w\<bar> / a * signbit_factor h)"
  by (simp add: zoomBoxFit_def)

lemma abs_signbit_factor: "\<bar>signbit_factor w\<bar> = 1"
  by (simp add: signbit_factor_def)

lemma zoomBoxFit_ratio:
  assumes "0 < a" and "w \<noteq> 0 \<or> h \<noteq> 0"
  shows "0 < \<bar>snd (zoomBoxFit a w h)\<bar> \<and>
         \<bar>fst (zoomBoxFit a w h)\<bar> / \<bar>snd (zoomBoxFit a w h)\<bar> = a"
proof (cases "\<bar>w\<bar> < a * \<bar>h\<bar>")
  case True
  have "h \<noteq> 0"
  proof
    assume "h = 0"
    with True show False by simp
  qed
  with assms(1) show ?thesis
    by (simp add: zoomBoxFit_then [OF True] abs_mult abs_signbit_factor)
next
  case False
  have "w \<noteq> 0"
  proof
    assume w: "w = 0"
    with False have "a * \<bar>h\<bar> \<le> 0" by simp
    with assms(1) have "\<bar>h\<bar> \<le> 0" by (simp add: mult_le_0_iff)
    with w assms(2) show False by simp
  qed
  with assms(1) show ?thesis
    by (simp add: zoomBoxFit_else [OF False] abs_mult abs_signbit_factor)
qed

lemma zoomBoxFit_width_sign:
  assumes "0 < a"
  shows "(w \<le> - 1 \<longrightarrow> fst (zoomBoxFit a w h) \<le> - 1) \<and>
         (1 \<le> w \<longrightarrow> 1 \<le> fst (zoomBoxFit a w h))"
proof (cases "\<bar>w\<bar> < a * \<bar>h\<bar>")
  case True
  have neg: "fst (zoomBoxFit a w h) \<le> - 1" if "w \<le> - 1"
  proof -
    from that have "signbit_factor w = - 1" by (simp add: signbit_factor_def)
    then have "fst (zoomBoxFit a w h) = - (a * \<bar>h\<bar>)"
      by (simp add: zoomBoxFit_then [OF True] mult.commute)
    with True that show ?thesis by simp
  qed
  have pos: "1 \<le> fst (zoomBoxFit a w h)" if "1 \<le> w"
  proof -
    from that have "signbit_factor w = 1" by (simp add: signbit_factor_def)
    then have "fst (zoomBoxFit a w h) = a * \<bar>h\<bar>"
      by (simp add: zoomBoxFit_then [OF True] mult.commute)
    with True that show ?thesis by simp
  qed
  from neg pos show ?thesis by blast
next
  case False
  then show ?thesis by (simp add: zoomBoxFit_else [OF False])
qed

lemma zoomBoxFit_height_sign:
  assumes "0 < a"
  shows "(h \<le> - 1 \<longrightarrow> snd (zoomBoxFit a w h) \<le> - 1) \<and>
         (1 \<le> h \<longrightarrow> 1 \<le> snd (zoomBoxFit a w h))"
proof (cases "\<bar>w\<bar> < a * \<bar>h\<bar>")
  case True
  then show ?thesis by (simp add: zoomBoxFit_then [OF True])
next
  case False
  then have "a * \<bar>h\<bar> \<le> \<bar>w\<bar>" by simp
  with assms have bound: "\<bar>h\<bar> \<le> \<bar>w\<bar> / a"
    by (simp add: pos_le_divide_eq mult.commute)
  have neg: "snd (zoomBoxFit a w h) \<le> - 1" if "h \<le> - 1"
  proof -
    from that have "signbit_factor h = - 1" by (simp add: signbit_factor_def)
    then have "snd (zoomBoxFit a w h) = - (\<bar>w\<bar> / a)"
      by (simp add: zoomBoxFit_else [OF False])
    with bound that show ?thesis by simp
  qed
  have pos: "1 \<le> snd (zoomBoxFit a w h)" if "1 \<le> h"
  proof -
    from that have "signbit_factor h = 1" by (simp add: signbit_factor_def)
    then have "snd (zoomBoxFit a w h) = \<bar>w\<bar> / a"
      by (simp add: zoomBoxFit_else [OF False])
    with bound that show ?thesis by simp
  qed
  from neg pos show ?thesis by blast
qed

text \<open>
  Claim C8. While the zoom box is shown and the aspect ratio is positive,
  \<^verbatim>\<open>zoomBoxContinue(px, py)\<close> at a point other than the start corner computes a box
  \<open>(w, h)\<close> whose absolute width and height, stored as the size of the shape, have the
  ratio \<open>aspectRatio\<close>; the width is negative when the drag goes left and positive when it
  goes right, the height is negative when the drag goes up and positive when it goes
  down, and the end corner lies on the same side of the start corner as the mouse.
\<close>

theorem C8_zoomBox_aspect_and_direction:
  assumes "m_zoomBoxIsShown v" and "0 < m_aspectRatio v"
    and "(px, py) \<noteq> m_zoomBoxStartCorner v"
  shows "let v' = zoomBoxContinue v px py;
             sx = fst (m_zoomBoxStartCorner v); sy = snd (m_zoomBoxStartCorner v);
             wh = zoomBoxFit (m_aspectRatio v) (real_of_int (px - sx)) (real_of_int (py - sy))
         in shape_size (getZoomBoxShape v') = (\<bar>fst wh\<bar>, \<bar>snd wh\<bar>) \<and>
            0 < \<bar>snd wh\<bar> \<and> \<bar>fst wh\<bar> / \<bar>snd wh\<bar> = m_aspectRatio v \<and>
            m_zoomBoxEndCorner v' = (sx + static_cast_int (fst wh), sy + static_cast_int (snd wh)) \<and>
            (px < sx \<longrightarrow> fst wh < 0 \<and> fst (m_zoomBoxEndCorner v') < sx) \<and>
            (sx < px \<longrightarrow> 0 < fst wh \<and> sx < fst (m_zoomBoxEndCorner v')) \<and>
            (py < sy \<longrightarrow> snd wh < 0 \<and> snd (m_zoomBoxEndCorner v') < sy) \<and>
            (sy < py \<longrightarrow> 0 < snd wh \<and> sy < snd (m_zoomBoxEndCorner v'))"
proof -
  define sx where "sx = fst (m_zoomBoxStartCorner v)"
  define sy where "sy = snd (m_zoomBoxStartCorner v)"
  define w0 where "w0 = real_of_int (px - sx)"
  define h0 where "h0 = real_of_int (py - sy)"
  define wh where "wh = zoomBoxFit (m_aspectRatio v) w0 h0"
  define v' where "v' = zoomBoxContinue v px py"
  have distinct: "w0 \<noteq> 0 \<or> h0 \<noteq> 0"
    using assms(3) by (auto simp: w0_def h0_def sx_def sy_def prod_eq_iff)
  have shape: "shape_size (getZoomBoxShape v') = (\<bar>fst wh\<bar>, \<bar>snd wh\<bar>)"
    and corner: "m_zoomBoxEndCorner v' = (sx + static_cast_int (fst wh), sy + static_cast_int (snd wh))"
    using assms(1)
    by (simp_all add: v'_def wh_def w0_def h0_def sx_def sy_def zoomBoxContinue_def
        getZoomBoxShape_def Let_def)
  have ratio: "0 < \<bar>snd wh\<bar> \<and> \<bar>fst wh\<bar> / \<bar>snd wh\<bar> = m_aspectRatio v"
    unfolding wh_def using assms(2) distinct by (rule zoomBoxFit_ratio)
  have wsign: "(w0 \<le> - 1 \<longrightarrow> fst wh \<le> - 1) \<and> (1 \<le> w0 \<longrightarrow> 1 \<le> fst wh)"
    unfolding wh_def using assms(2) by (rule zoomBoxFit_width_sign)
  have hsign: "(h0 \<le> - 1 \<longrightarrow> snd wh \<le> - 1) \<and> (1 \<le> h0 \<longrightarrow> 1 \<le> snd wh)"
    unfolding wh_def using assms(2) by (rule zoomBoxFit_height_sign)
  have left: "fst wh < 0 \<and> fst (m_zoomBoxEndCorner v') < sx" if "px < sx"
  proof -
    from that have "w0 \<le> - 1" by (simp add: w0_def)
    with wsign have "fst wh \<le> - 1" by blast
    then show ?thesis
      using static_cast_int_le_minus_one [of "fst wh"] by (simp add: corner)
  qed
  have right: "0 < fst wh \<and> sx < fst (m_zoomBoxEndCorner v')" if "sx < px"
  proof -
    from that have "1 \<le> w0" by (simp add: w0_def)
    with wsign have "1 \<le> fst wh" by blast
    then show ?thesis
      using static_cast_int_ge_one [of "fst wh"] by (simp add: corner)
  qed
  have up: "snd wh < 0 \<and> snd (m_zoomBoxEndCorner v') < sy" if "py < sy"
  proof -
    from that have "h0 \<le> - 1" by (simp add: h0_def)
    with hsign have "snd wh \<le> - 1" by blast
    then show ?thesis
      using static_cast_int_le_minus_one [of "snd wh"] by (simp add: corner)
  qed
  have down: "0 < snd wh \<and> sy < snd (m_zoomBoxEndCorner v')" if "sy < py"
  proof -
    from that have "1 \<le> h0" by (simp add: h0_def)
    with hsign have "1 \<le> snd wh" by blast
    then show ?thesis
      using static_cast_int_ge_one [of "snd wh"] by (simp add: corner)
  qed
  from shape corner ratio left right up down show ?thesis
    unfolding Let_def v'_def [symmetric] sx_def [symmetric] sy_def [symmetric]
      w0_def [symmetric] h0_def [symmetric] wh_def [symmetric]
    by blast
qed

theorem C8_zoomBox_witness:
  "m_zoomBoxIsShown (zoomBoxBegin main_view 100 100) \<and>
   0 < m_aspectRatio (zoomBoxBegin main_view 100 100) \<and>
   (400, 50) \<noteq> m_zoomBoxStartCorner (zoomBoxBegin main_view 100 100) \<and>
   shape_size (getZoomBoxShape (zoomBoxContinue (zoomBoxBegin main_view 100 100) 400 50))
     = (300, 225) \<and>
   m_zoomBoxEndCorner (zoomBoxContinue (zoomBoxBegin main_view 100 100) 400 50) = (400, - 125)"
  using C8_zoomBox_aspect_and_direction [of "zoomBoxBegin main_view 100 100" 400 50]
  by (simp add: zoomBoxBegin_def main_view_fields Let_def zoomBoxFit_def signbit_factor_def
      static_cast_int_def)

text \<open>While the zoom box is shown, \<^verbatim>\<open>zoomBoxEnd\<close> at its start corner leaves centre,
  scale, zoom, viewport, dirty flag, screen size and aspect ratio as they were and only
  hides the box.\<close>

lemma zoomBoxEnd_zero_size_shown_box:
  assumes "m_zoomBoxIsShown v" and "m_zoomBoxStartCorner v = (px, py)"
    and "0 < m_aspectRatio v"
  shows "m_centre (zoomBoxEnd v px py) = m_centre v \<and>
         m_scale (zoomBoxEnd v px py) = m_scale v \<and>
         m_zoom (zoomBoxEnd v px py) = m_zoom v \<and>
         m_rect (zoomBoxEnd v px py) = m_rect v \<and>
         m_dirty (zoomBoxEnd v px py) = m_dirty v \<and>
         m_screenSize (zoomBoxEnd v px py) = m_screenSize v \<and>
         m_aspectRatio (zoomBoxEnd v px py) = m_aspectRatio v \<and>
         \<not> m_zoomBoxIsShown (zoomBoxEnd v px py)"
proof -
  have "m_zoomBoxEndCorner (zoomBoxContinue v px py) = (px, py)"
    using assms(1,2)
    by (simp add: zoomBoxContinue_def Let_def zoomBoxFit_zero static_cast_int_def)
  then show ?thesis
    using assms(2) by (simp add: zoomBoxEnd_def Let_def zoomBoxContinue_nav)
qed

lemma cancelled_box_view_fields:
  "m_zoomBoxStartCorner cancelled_box_view = (100, 100)"
  "m_zoomBoxEndCorner cancelled_box_view = (400, 325)"
  "\<not> m_zoomBoxIsShown cancelled_box_view"
  "m_scale cancelled_box_view = 2" "m_centre cancelled_box_view = (- (1 / 2), 0)"
  "m_screenSize cancelled_box_view = (1200, 900)"
  by (simp_all add: cancelled_box_view_def zoomBoxCancel_def zoomBoxContinue_def
      zoomBoxBegin_def zoomBoxFit_def signbit_factor_def static_cast_int_def Let_def
      main_view_fields)

text \<open>
  Claim C9 reads: \<^verbatim>\<open>zoomBoxEnd\<close> with the end point equal to the start corner leaves
  centre and scale unchanged. Evaluated after a cancelled drag: the start corner is
  \<open>(100, 100)\<close>, the box is hidden, scale and centre are those of the first frame.
  \<^verbatim>\<open>zoomBoxEnd(100, 100)\<close> calls \<^verbatim>\<open>zoomBoxContinue\<close>, which does nothing for a hidden
  box, reads the end corner \<open>(400, 325)\<close> left by the drag, finds the height 225, and
  moves and rescales the view: the scale becomes \<open>1/2\<close>.
\<close>

theorem C9_cancelled_box_still_zooms:
  "m_zoomBoxStartCorner cancelled_box_view = (100, 100) \<and>
   \<not> m_zoomBoxIsShown cancelled_box_view \<and>
   m_scale cancelled_box_view = 2 \<and>
   m_centre cancelled_box_view = (- (1 / 2), 0) \<and>
   m_scale (zoomBoxEnd cancelled_box_view 100 100) = 1 / 2 \<and>
   m_centre (zoomBoxEnd cancelled_box_view 100 100) = (- (37 / 18), - (238 / 225))"
  by (simp add: cancelled_box_view_fields zoomBoxEnd_def zoomBoxContinue_def Let_def
      int_div_def complexAtPixel_Pixel_def view_defs)

section \<open>Properties of the escape-time evaluator\<close>

lemma static_cast_int_le_11_iff: "static_cast_int z \<le> 11 \<longleftrightarrow> z < 12"
proof (cases "0 \<le> z")
  case True
  have "\<lfloor>z\<rfloor> < 12 \<longleftrightarrow> z < 12" by (simp add: floor_less_iff)
  with True show ?thesis by (simp add: static_cast_int_def)
next
  case False
  then have "\<lceil>z\<rceil> \<le> 0" by (simp add: ceiling_le_iff)
  with False show ?thesis by (simp add: static_cast_int_def)
qed

text \<open>
  Claim C5, as amended. The claim reads: the budget is \<open>120 - 10 * floor(zoom)\<close>,
  clamped to stay positive, so it is positive at every zoom. What holds: the budget of
  \<^verbatim>\<open>mandelbrot\<close> is \<open>120 - 10 * t\<close>, where \<open>t\<close> is the zoom with its fractional part
  discarded (the floor for a zoom that is not negative, the ceiling for a negative one);
  nothing clamps it, and it is positive exactly when the zoom is below 12.
\<close>

theorem C5_budget_amended:
  "MAX_ITERATIONS v = 120 - 10 * (if 0 \<le> getZoom v then \<lfloor>getZoom v\<rfloor> else \<lceil>getZoom v\<rceil>) \<and>
   (0 < MAX_ITERATIONS v \<longleftrightarrow> getZoom v < 12) \<and>
   mandelbrot v z0 = mandelbrot_loop (MAX_ITERATIONS v) z0 z0 0"
proof -
  have "0 < MAX_ITERATIONS v \<longleftrightarrow> static_cast_int (getZoom v) \<le> 11"
    by (auto simp: MAX_ITERATIONS_def)
  then have "0 < MAX_ITERATIONS v \<longleftrightarrow> getZoom v < 12"
    by (simp only: static_cast_int_le_11_iff)
  then show ?thesis
    by (simp add: MAX_ITERATIONS_def static_cast_int_def mandelbrot_def)
qed

text \<open>At zoom 12 the budget is 0. At zoom \<open>-3/2\<close> the value \<open>120 - 10 * floor(zoom)\<close>
  is positive, so a clamp would leave it alone, and the budget is another number.\<close>

theorem C5_counterexample:
  "\<not> 0 < MAX_ITERATIONS (zoomTo main_view 12) \<and>
   0 < 120 - 10 * \<lfloor>getZoom (zoomTo main_view (- (3 / 2)))\<rfloor> \<and>
   MAX_ITERATIONS (zoomTo main_view (- (3 / 2)))
     \<noteq> 120 - 10 * \<lfloor>getZoom (zoomTo main_view (- (3 / 2)))\<rfloor>"
proof -
  have "static_cast_int (- (3 / 2)) = - 1" "\<lfloor>- (3 / 2) :: real\<rfloor> = - 2"
    by (simp_all add: static_cast_int_def)
  then show ?thesis
    by (simp add: MAX_ITERATIONS_def getZoom_def view_defs static_cast_int_def)
qed

lemma mandelbrot_loop_range:
  "0 \<le> n \<Longrightarrow> 0 \<le> mandelbrot_loop maxIter z0 z n \<and> mandelbrot_loop maxIter z0 z n \<le> 1"
proof (induction maxIter z0 z n rule: mandelbrot_loop.induct)
  case (1 maxIter z0 z n)
  show ?case
  proof (cases "n < maxIter")
    case False
    then show ?thesis by (simp add: mandelbrot_loop.simps [of maxIter z0 z n])
  next
    case True
    show ?thesis
    proof (cases "unbounded (mandelbrot_step z0 z)")
      case esc: True
      have "0 \<le> real_of_int n / real_of_int maxIter" "real_of_int n / real_of_int maxIter \<le> 1"
        using True "1.prems" by simp_all
      with True esc show ?thesis
        by (simp add: mandelbrot_loop.simps [of maxIter z0 z n] Let_def)
    next
      case noesc: False
      have "0 \<le> n + 1" using "1.prems" by simp
      from "1.IH" [OF True refl noesc this] True noesc show ?thesis
        by (simp add: mandelbrot_loop.simps [of maxIter z0 z n] Let_def)
    qed
  qed
qed

lemma mandelbrot_loop_never_unbounded:
  assumes "z = orbit z0 k" and "n = int k"
    and "\<forall>j. k < j \<and> int j \<le> maxIter \<longrightarrow> \<not> unbounded (orbit z0 j)"
  shows "mandelbrot_loop maxIter z0 z n = 1"
  using assms
proof (induction maxIter z0 z n arbitrary: k rule: mandelbrot_loop.induct)
  case (1 maxIter z0 z n)
  show ?case
  proof (cases "n < maxIter")
    case False
    then show ?thesis by (simp add: mandelbrot_loop.simps [of maxIter z0 z n])
  next
    case True
    have step: "mandelbrot_step z0 z = orbit z0 (Suc k)"
      using "1.prems"(1) by simp
    have "int (Suc k) \<le> maxIter" using True "1.prems"(2) by simp
    with "1.prems"(3) have noesc: "\<not> unbounded (mandelbrot_step z0 z)"
      unfolding step by blast
    have "mandelbrot_loop maxIter z0 (mandelbrot_step z0 z) (n + 1) = 1"
    proof (rule "1.IH" [OF True refl noesc step])
      show "n + 1 = int (Suc k)" using "1.prems"(2) by simp
      show "\<forall>j. Suc k < j \<and> int j \<le> maxIter \<longrightarrow> \<not> unbounded (orbit z0 j)"
        using "1.prems"(3) by auto
    qed
    with True noesc show ?thesis
      by (simp add: mandelbrot_loop.simps [of maxIter z0 z n] Let_def)
  qed
qed

lemma orbit_origin: "orbit (0, 0) k = (0, 0)"
  by (induction k) (simp_all add: mandelbrot_step_def)

lemma origin_not_unbounded: "\<not> unbounded (0, 0)"
  by (simp add: unbounded_def THRESHOLD_def)

lemma mandelbrot_loop_origin: "mandelbrot_loop maxIter (0, 0) (0, 0) 0 = 1"
  by (rule mandelbrot_loop_never_unbounded [where k = 0])
    (simp_all add: orbit_origin origin_not_unbounded)

text \<open>
  Claim C7. For every view and every \<open>z0\<close> the result of \<^verbatim>\<open>mandelbrot\<close> lies in
  \<open>[0, 1]\<close>. If no point \<open>orbit z0 k\<close> with \<open>1 \<le> k \<le> MAX_ITERATIONS\<close> (the values
  that the loop tests) exceeds the threshold, the result is exactly \<open>1\<close>. For \<open>z0 = 0\<close> the
  result is \<open>1\<close> on every view and for every budget.
\<close>

theorem C7_escape_ratio:
  "0 \<le> mandelbrot v z0 \<and> mandelbrot v z0 \<le> 1 \<and>
   ((\<forall>k. 1 \<le> k \<and> int k \<le> MAX_ITERATIONS v \<longrightarrow> \<not> unbounded (orbit z0 k))
      \<longrightarrow> mandelbrot v z0 = 1) \<and>
   mandelbrot v (0, 0) = 1 \<and>
   (\<forall>maxIter. mandelbrot_loop maxIter (0, 0) (0, 0) 0 = 1)"
proof -
  have range: "0 \<le> mandelbrot v z0 \<and> mandelbrot v z0 \<le> 1"
    unfolding mandelbrot_def by (rule mandelbrot_loop_range) simp
  have inside: "mandelbrot v z0 = 1"
    if "\<forall>k. 1 \<le> k \<and> int k \<le> MAX_ITERATIONS v \<longrightarrow> \<not> unbounded (orbit z0 k)"
    unfolding mandelbrot_def
  proof (rule mandelbrot_loop_never_unbounded [where k = 0])
    show "\<forall>j. 0 < j \<and> int j \<le> MAX_ITERATIONS v \<longrightarrow> \<not> unbounded (orbit z0 j)"
      using that by (simp add: Suc_le_eq)
  qed simp_all
  from range inside show ?thesis
    by (simp add: mandelbrot_def mandelbrot_loop_origin)
qed

lemma orbit_minus_one: "orbit (- 1, 0) k = (if even k then (- 1, 0) else (0, 0))"
  by (induction k) (simp_all add: mandelbrot_step_def)

theorem C7_escape_ratio_witness:
  "mandelbrot main_view (- 1, 0) = 1 \<and> mandelbrot main_view (0, 0) = 1 \<and>
   0 \<le> mandelbrot main_view (- 1, 0)"
proof -
  have "\<forall>k. 1 \<le> k \<and> int k \<le> MAX_ITERATIONS main_view \<longrightarrow> \<not> unbounded (orbit (- 1, 0) k)"
    by (simp add: orbit_minus_one unbounded_def THRESHOLD_def)
  with C7_escape_ratio [of main_view "(- 1, 0)"] show ?thesis by simp
qed

text \<open>
  Claim C10. When the zoom truncated to an integer is at least 12, the budget
  \<open>120 - 10 * (int)zoom\<close> is not positive, the body of the loop runs zero times, and
  \<^verbatim>\<open>mandelbrot\<close> returns \<open>1\<close> for every point; a renderer on that view colours every
  pixel with the default colour, opaque black.
\<close>

theorem C10_no_iteration_from_zoom_12:
  assumes "12 \<le> static_cast_int (getZoom v)"
  shows "MAX_ITERATIONS v \<le> 0 \<and>
         loop_body_runs (MAX_ITERATIONS v) z0 z0 0 = 0 \<and>
         mandelbrot v z0 = 1 \<and>
         (m_renderingView R = v \<longrightarrow> pixelColour R x y = Color_default)"
proof -
  have "MAX_ITERATIONS v \<le> 0"
    using assms by (simp add: MAX_ITERATIONS_def)
  then have "\<not> 0 < MAX_ITERATIONS v" by simp
  then have "loop_body_runs (MAX_ITERATIONS v) z0 z0 0 = 0"
    and "mandelbrot v z = 1" for z
    by (simp_all add: mandelbrot_def loop_body_runs.simps [of "MAX_ITERATIONS v"]
        mandelbrot_loop.simps [of "MAX_ITERATIONS v"])
  with \<open>MAX_ITERATIONS v \<le> 0\<close> show ?thesis
    by (simp add: pixelColour_def)
qed

theorem C10_no_iteration_witness:
  "12 \<le> static_cast_int (getZoom (zoomTo main_view (25 / 2))) \<and>
   MAX_ITERATIONS (zoomTo main_view (25 / 2)) = 0 \<and>
   mandelbrot (zoomTo main_view (25 / 2)) (3, 3) = 1 \<and>
   pixelColour (main_renderer\<lparr>m_renderingView := zoomTo main_view (25 / 2)\<rparr>) 0 0
     = \<lparr>col_r = 0, col_g = 0, col_b = 0, col_a = 255\<rparr>"
proof -
  have h: "12 \<le> static_cast_int (getZoom (zoomTo main_view (25 / 2)))"
    by (simp add: getZoom_def view_defs static_cast_int_def)
  show ?thesis
    using h C10_no_iteration_from_zoom_12 [OF h, of "(3, 3)"
        "main_renderer\<lparr>m_renderingView := zoomTo main_view (25 / 2)\<rparr>" 0 0]
    by (simp add: MAX_ITERATIONS_def getZoom_def view_defs static_cast_int_def Color_default_def)
qed

section \<open>Properties of the render pass\<close>

lemma putPixel_bytes:
  "putPixel R x y p (4 * (y * m_width R + x)) = col_r (pixelColour R x y)"
  "putPixel R x y p (4 * (y * m_width R + x) + 1) = col_g (pixelColour R x y)"
  "putPixel R x y p (4 * (y * m_width R + x) + 2) = col_b (pixelColour R x y)"
  "putPixel R x y p (4 * (y * m_width R + x) + 3) = 255"
  by (simp_all add: putPixel_def Let_def)

lemma putPixel_other:
  "a < 4 * (y * m_width R + x) \<or> 4 * (y * m_width R + x) + 3 < a \<Longrightarrow>
   putPixel R x y p a = p a"
  by (auto simp: putPixel_def Let_def)

lemma putPixel_window:
  "0 \<le> k \<Longrightarrow> k < 4 \<Longrightarrow>
   putPixel R x y p (4 * (y * m_width R + x) + k) = putPixel R x y q (4 * (y * m_width R + x) + k)"
  by (auto simp: putPixel_def Let_def)

lemma render_row_other:
  "a < 4 * (y * m_width R + x) \<or> 4 * (y * m_width R + m_width R) \<le> a \<Longrightarrow>
   render_row R y x p a = p a"
proof (induction R y x p rule: render_row.induct)
  case (1 R y x pixels)
  show ?case
  proof (cases "x < m_width R")
    case False
    then show ?thesis by (simp add: render_row.simps [of R y x pixels])
  next
    case True
    have "render_row R y (x + 1) (putPixel R x y pixels) a = putPixel R x y pixels a"
      using "1.prems" by (intro "1.IH" [OF True]) auto
    also have "\<dots> = pixels a"
      using "1.prems" True by (intro putPixel_other) auto
    finally show ?thesis
      using True by (simp add: render_row.simps [of R y x pixels])
  qed
qed

lemma render_row_at:
  "x0 \<le> x \<Longrightarrow> x < m_width R \<Longrightarrow> 0 \<le> k \<Longrightarrow> k < 4 \<Longrightarrow>
   render_row R y x0 p (4 * (y * m_width R + x) + k) = putPixel R x y q (4 * (y * m_width R + x) + k)"
proof (induction R y x0 p rule: render_row.induct)
  case (1 R y x0 pixels)
  have lt: "x0 < m_width R" using "1.prems" by simp
  let ?a = "4 * (y * m_width R + x) + k"
  have unfold: "render_row R y x0 pixels ?a = render_row R y (x0 + 1) (putPixel R x0 y pixels) ?a"
    using lt by (simp add: render_row.simps [of R y x0 pixels])
  show ?case
  proof (cases "x0 = x")
    case True
    have "render_row R y (x0 + 1) (putPixel R x0 y pixels) ?a = putPixel R x0 y pixels ?a"
      using "1.prems" True by (intro render_row_other) auto
    also have "\<dots> = putPixel R x y q ?a"
      unfolding True using "1.prems"(3,4) by (rule putPixel_window)
    finally show ?thesis using unfold by simp
  next
    case False
    then have "x0 + 1 \<le> x" using "1.prems" by simp
    from "1.IH" [OF lt this "1.prems"(2,3,4)] unfold show ?thesis by simp
  qed
qed

lemma render_rows_other:
  "0 \<le> m_width R \<Longrightarrow> a < 4 * (y * m_width R) \<Longrightarrow> render_rows R y p a = p a"
proof (induction R y p rule: render_rows.induct)
  case (1 R y pixels)
  show ?case
  proof (cases "y < m_height R \<and> \<not> m_cancelling R")
    case False
    then show ?thesis by (auto simp: render_rows.simps [of R y pixels])
  next
    case True
    have "a < 4 * ((y + 1) * m_width R)"
      using "1.prems" by (simp add: algebra_simps)
    with "1.IH" "1.prems"(1) True
    have "render_rows R (y + 1) (render_row R y 0 pixels) a = render_row R y 0 pixels a"
      by simp
    also have "\<dots> = pixels a"
      using "1.prems"(2) by (intro render_row_other) simp
    finally show ?thesis
      using True by (simp add: render_rows.simps [of R y pixels])
  qed
qed

lemma render_rows_at:
  "\<not> m_cancelling R \<Longrightarrow> y0 \<le> y \<Longrightarrow> y < m_height R \<Longrightarrow> 0 \<le> x \<Longrightarrow> x < m_width R \<Longrightarrow>
   0 \<le> k \<Longrightarrow> k < 4 \<Longrightarrow>
   render_rows R y0 p (4 * (y * m_width R + x) + k) = putPixel R x y q (4 * (y * m_width R + x) + k)"
proof (induction R y0 p rule: render_rows.induct)
  case (1 R y0 pixels)
  have lt: "y0 < m_height R" using "1.prems" by simp
  let ?a = "4 * (y * m_width R + x) + k"
  have unfold: "render_rows R y0 pixels ?a = render_rows R (y0 + 1) (render_row R y0 0 pixels) ?a"
    using lt "1.prems"(1) by (simp add: render_rows.simps [of R y0 pixels])
  show ?case
  proof (cases "y0 = y")
    case True
    have "?a < 4 * ((y + 1) * m_width R)"
      using "1.prems" by (simp add: algebra_simps)
    then have "render_rows R (y0 + 1) (render_row R y0 0 pixels) ?a = render_row R y0 0 pixels ?a"
      unfolding True using "1.prems" by (intro render_rows_other) simp_all
    also have "\<dots> = putPixel R x y q ?a"
      unfolding True using "1.prems" by (intro render_row_at) simp_all
    finally show ?thesis using unfold by simp
  next
    case False
    then have "y0 + 1 \<le> y" using "1.prems" by simp
    from "1.IH" [OF lt "1.prems"(1) "1.prems"(1) this "1.prems"(3-7)] unfold
    show ?thesis by simp
  qed
qed

lemma hueToRGB_alpha: "col_a (hueToRGB h) = 255"
  by (simp add: hueToRGB_def Let_def Color_rgb_def Color_default_def)

lemma main_view_corner: "complexAtPixel main_view 0 0 = (- (19 / 6), - 2)"
  by (simp add: complexAtPixel_def main_view_fields)

lemma main_view_corner_escapes: "mandelbrot main_view (- (19 / 6), - 2) = 0"
  by (simp add: mandelbrot_def MAX_ITERATIONS_def getZoom_def main_view_fields
      static_cast_int_def mandelbrot_loop.simps [of 110 _ _ 0] mandelbrot_step_def
      unbounded_def THRESHOLD_def Let_def)

lemma hueToRGB_0: "hueToRGB 0 = \<lparr>col_r = 255, col_g = 0, col_b = 0, col_a = 255\<rparr>"
  by (simp add: hueToRGB_def Let_def fmod_def static_cast_int_def int_div_def
      static_cast_Uint8_def Color_rgb_def)

text \<open>
  Claim C6. After a render pass that is not cancelled, for every pixel \<open>(x, y)\<close> with
  \<open>0 \<le> x < m_width\<close> and \<open>0 \<le> y < m_height\<close>, the four bytes of the buffer at the
  offset \<open>4 * (y * m_width + x)\<close> are the red, green and blue bytes of the colour \<open>c\<close>
  and \<open>0xFF\<close>, where \<open>m\<close> is the result of \<^verbatim>\<open>mandelbrot\<close> at \<^verbatim>\<open>complexAtPixel(x, y)\<close> and
  \<open>c\<close> is black when \<open>m = 1\<close> and \<^verbatim>\<open>hueToRGB(360 * m)\<close> otherwise; \<open>c\<close> is opaque, and the
  pass ends in the state \<^verbatim>\<open>Completed\<close>.
\<close>

theorem C6_render_stores_pixel_colours:
  assumes "\<not> m_cancelling R"
    and "0 \<le> x" and "x < m_width R" and "0 \<le> y" and "y < m_height R"
  shows "let pixels = m_renderingPixels (render R);
             currentPixel = 4 * (y * m_width R + x);
             m = mandelbrot (m_renderingView R) (complexAtPixel (m_renderingView R) x y);
             c = (if m = 1 then Color_rgb 0 0 0 else hueToRGB (360 * m))
         in pixels currentPixel = col_r c \<and> pixels (currentPixel + 1) = col_g c \<and>
            pixels (currentPixel + 2) = col_b c \<and> pixels (currentPixel + 3) = 255 \<and>
            col_a c = 255 \<and> m_renderingState (render R) = Completed"
proof -
  define m where "m = mandelbrot (m_renderingView R) (complexAtPixel (m_renderingView R) x y)"
  define c where "c = (if m = 1 then Color_rgb 0 0 0 else hueToRGB (360 * m))"
  let ?a = "4 * (y * m_width R + x)"
  have "m \<le> 1"
    unfolding m_def mandelbrot_def using mandelbrot_loop_range [of 0] by simp
  then have colour: "pixelColour R x y = c"
    by (auto simp: pixelColour_def c_def m_def Let_def Color_default_def Color_rgb_def)
  have at: "render_rows R 0 (m_renderingPixels R) (?a + k) = putPixel R x y (m_renderingPixels R) (?a + k)"
    if "0 \<le> k" "k < 4" for k
    using assms that by (intro render_rows_at) simp_all
  have "render_rows R 0 (m_renderingPixels R) ?a = putPixel R x y (m_renderingPixels R) ?a"
    using at [of 0] by (simp only: add_0_right)
  then have red: "render_rows R 0 (m_renderingPixels R) ?a = col_r c"
    by (simp only: putPixel_bytes colour)
  have green: "render_rows R 0 (m_renderingPixels R) (?a + 1) = col_g c"
    using at [of 1] by (simp only: putPixel_bytes colour)
  have blue: "render_rows R 0 (m_renderingPixels R) (?a + 2) = col_b c"
    using at [of 2] by (simp only: putPixel_bytes colour)
  have alpha: "render_rows R 0 (m_renderingPixels R) (?a + 3) = 255"
    using at [of 3] by (simp only: putPixel_bytes)
  have px: "m_renderingPixels (render R) = render_rows R 0 (m_renderingPixels R)"
    by (simp add: render_def)
  from red green blue alpha have bytes:
    "m_renderingPixels (render R) ?a = col_r c \<and>
     m_renderingPixels (render R) (?a + 1) = col_g c \<and>
     m_renderingPixels (render R) (?a + 2) = col_b c \<and>
     m_renderingPixels (render R) (?a + 3) = 255"
    unfolding px by blast
  have opaque: "col_a c = 255"
    by (simp add: c_def hueToRGB_alpha Color_rgb_def)
  have state: "m_renderingState (render R) = Completed"
    by (simp add: render_def)
  from bytes opaque state show ?thesis
    unfolding Let_def m_def [symmetric] c_def [symmetric]
    by blast
qed

text \<open>The top left pixel of the first frame leaves the threshold in the first pass of
  the loop, so its ratio is 0 and its colour is \<^verbatim>\<open>hueToRGB(0)\<close>, red.\<close>

theorem C6_render_witness:
  "m_renderingPixels (render main_renderer) 0 = 255 \<and>
   m_renderingPixels (render main_renderer) 1 = 0 \<and>
   m_renderingPixels (render main_renderer) 2 = 0 \<and>
   m_renderingPixels (render main_renderer) 3 = 255"
  using C6_render_stores_pixel_colours [of main_renderer 0 0]
  by (simp add: main_renderer_def main_view_corner main_view_corner_escapes hueToRGB_0 Let_def)

end
